theory Spec2Isabelle
  imports Main "HOL-Library.Word"
begin

unbundle bit_operations_syntax

section \<open>The C++ data model\<close>

text \<open>
  The program is \<^verbatim>\<open>src/main.cc\<close>. It is modelled for the usual x86-64 data model:
  \<^verbatim>\<open>char\<close> is a signed 8-bit integer and \<^verbatim>\<open>int\<close> is \<^verbatim>\<open>int32_t\<close>. A \<^verbatim>\<open>char\<close> is an
  \<open>8 word\<close> read by \<open>sint\<close>, an \<^verbatim>\<open>int\<close> is a \<open>32 word\<close> read by \<open>sint\<close>.

  Every operand of an arithmetic or bitwise operator of type \<^verbatim>\<open>char\<close> is promoted to
  \<^verbatim>\<open>int\<close> first (sign extension, \<open>promote\<close>); a conversion of an \<^verbatim>\<open>int\<close> to \<^verbatim>\<open>char\<close>,
  written \<^verbatim>\<open>char(e)\<close> or implied by a \<^verbatim>\<open>char\<close> parameter, a \<^verbatim>\<open>char\<close> variable or a
  \<^verbatim>\<open>char\<close> return type, keeps the low eight bits (\<open>to_char\<close>).

  A \<^verbatim>\<open>std::string_view\<close> is a \<open>string\<close>; \<open>c_char\<close> reads one of its characters as a
  \<^verbatim>\<open>char\<close>. A \<^verbatim>\<open>std::string\<close> under construction is a list of \<^verbatim>\<open>char\<close>s.
\<close>

type_synonym cchar = "8 word"
type_synonym cint = "32 word"

definition c_char :: "char \<Rightarrow> cchar" where
  "c_char c = of_char c"

definition promote :: "cchar \<Rightarrow> cint" where
  "promote c = scast c"

definition to_char :: "cint \<Rightarrow> cchar" where
  "to_char i = ucast i"

section \<open>The hex-digit decoder\<close>

text \<open>
  \<^verbatim>\<open>hexCharToByte\<close>: the comparisons and the subtractions are on the promoted character,
  the result of the conditional expression is an \<^verbatim>\<open>int\<close>, and the return type \<^verbatim>\<open>char\<close>
  narrows it; \<^verbatim>\<open>'0'\<close> is 0x30, \<^verbatim>\<open>'a'\<close> is 0x61 and \<^verbatim>\<open>'A'\<close> is 0x41.
\<close>

definition hexCharToByte :: "cchar \<Rightarrow> cchar" where
  "hexCharToByte c =
     to_char
       (if 0x30 \<le> sint (promote c) \<and> sint (promote c) \<le> 0x39 then promote c - 0x30
        else if 0x61 \<le> sint (promote c) \<and> sint (promote c) \<le> 0x66 then promote c - (0x61 - 10)
        else if 0x41 \<le> sint (promote c) \<and> sint (promote c) \<le> 0x46 then promote c - (0x41 - 10)
        else - 1)"

section \<open>UTF-8 byte prefixes and the code-point classifier\<close>

definition Utf8ContPrefix :: cchar where
  "Utf8ContPrefix = 0x80"

definition Utf8LatinPrefix :: cchar where
  "Utf8LatinPrefix = 0xC0"

definition Utf8MultiLingPrefix :: cchar where
  "Utf8MultiLingPrefix = 0xE0"

definition Utf8ExtendedPrefix :: cchar where
  "Utf8ExtendedPrefix = 0xF0"

datatype Utf8CPType = Ascii | Latin | MultiLingual | Extended | Invalid

text \<open>\<^verbatim>\<open>utf8CodePointType\<close> takes an \<^verbatim>\<open>int32_t\<close>; its comparisons are signed.\<close>

definition utf8CodePointType :: "cint \<Rightarrow> Utf8CPType" where
  "utf8CodePointType codepoint =
     (if 0x00000 \<le> sint codepoint \<and> sint codepoint \<le> 0x0007F then Ascii
      else if 0x00080 \<le> sint codepoint \<and> sint codepoint \<le> 0x007FF then Latin
      else if (0x00800 \<le> sint codepoint \<and> sint codepoint < 0x0D800)
              \<or> (0x0DFFF < sint codepoint \<and> sint codepoint \<le> 0x0FFFF) then MultiLingual
      else if 0x010000 \<le> sint codepoint \<and> sint codepoint \<le> 0x10FFFF then Extended
      else Invalid)"

section \<open>The hex-string parser\<close>

text \<open>
  \<^verbatim>\<open>hexCharToValue<T>\<close> is a template over the target type. Its default is
  \<^verbatim>\<open>uint32_t\<close> and the program instantiates it once, at \<^verbatim>\<open>int32_t\<close>; for both,
  \<^verbatim>\<open>sizeof(T) * 2\<close> is 8 and the returned \<^verbatim>\<open>int cp\<close> keeps its 32 bits, so one model
  serves both: the result is a \<open>32 word\<close>, read by \<open>unat\<close> for \<^verbatim>\<open>uint32_t\<close> and by
  \<open>sint\<close> for \<^verbatim>\<open>int32_t\<close>.

  The loop body is \<^verbatim>\<open>cp = (cp << shift) | b; shift = 4;\<close> with \<^verbatim>\<open>shift\<close> starting at 0.
  With at most eight digits the shifted operand is below \<open>2 ^ 28\<close>, so the left shift
  never leaves the range of \<^verbatim>\<open>unsigned int\<close> and is the same as \<open>push_bit\<close> on 32 bits.
\<close>

fun hexCharToValue_loop :: "cint \<Rightarrow> nat \<Rightarrow> string \<Rightarrow> cint option" where
  "hexCharToValue_loop cp shift [] = Some cp"
| "hexCharToValue_loop cp shift (c # cs) =
     (let b = hexCharToByte (c_char c)
      in if sint b < 0 then None
         else hexCharToValue_loop (push_bit shift cp OR promote b) 4 cs)"

definition hexCharToValue :: "string \<Rightarrow> cint option" where
  "hexCharToValue hexChar =
     (let l = 4 * 2
      in if length hexChar = 0 \<or> length hexChar mod 2 \<noteq> 0 \<or> length hexChar > l then None
         else hexCharToValue_loop 0 0 hexChar)"

section \<open>The encoder\<close>

text \<open>
  \<^verbatim>\<open>std::string_view::operator[]\<close> does not check its index: reading at or past
  \<^verbatim>\<open>length()\<close> is undefined behaviour. The model makes it the error \<open>OutOfRange\<close>, so the
  encoder returns \<open>Inl OutOfRange\<close> where the C++ reads past the end of its input, and
  \<open>Inr res\<close> where it returns the string \<open>res\<close>. The failure result of the C++ is the
  empty string, \<open>Inr []\<close>.
\<close>

datatype error = OutOfRange

definition at_index :: "string \<Rightarrow> nat \<Rightarrow> (char \<Rightarrow> error + 'a) \<Rightarrow> error + 'a" where
  "at_index s i k = (if i < length s then k (s ! i) else Inl OutOfRange)"

text \<open>
  Each byte expression is written with the precedence of the C++ source: \<^verbatim>\<open><<\<close> and
  \<^verbatim>\<open>>>\<close> bind tighter than \<^verbatim>\<open>|\<close>. The operand of every \<^verbatim>\<open>>>\<close> is masked with
  \<^verbatim>\<open>0b00001100\<close> and so is not negative: the shift is \<open>drop_bit\<close>. In the first byte
  of the \<open>Extended\<close> case the source closes \<^verbatim>\<open>char(\<close> before the last \<^verbatim>\<open>|\<close>; the
  \<^verbatim>\<open>int\<close> that results is narrowed by the \<^verbatim>\<open>char\<close> parameter of \<^verbatim>\<open>push_back\<close>.
\<close>

definition hexCodepointToUtf8String :: "string \<Rightarrow> error + cchar list" where
  "hexCodepointToUtf8String hexChar =
     (case hexCharToValue hexChar of
        None \<Rightarrow> Inr []
      | Some codepoint \<Rightarrow>
          (case utf8CodePointType codepoint of
             Ascii \<Rightarrow> Inr [to_char codepoint]
           | Latin \<Rightarrow>
               at_index hexChar 1 (\<lambda>h1. let c1 = hexCharToByte (c_char h1) in
               at_index hexChar 2 (\<lambda>h2. let c2 = hexCharToByte (c_char h2) in
               at_index hexChar 3 (\<lambda>h3. let c3 = hexCharToByte (c_char h3) in
               Inr [to_char (promote Utf8LatinPrefix OR push_bit 2 (promote c1 AND 0b00000111)
                               OR drop_bit 2 (promote c2 AND 0b00001100)),
                    to_char (promote Utf8ContPrefix OR push_bit 4 (promote c2 AND 0b00000011)
                               OR (promote c3 AND 0b00001111))])))
           | MultiLingual \<Rightarrow>
               at_index hexChar 0 (\<lambda>h0. let c0 = hexCharToByte (c_char h0) in
               at_index hexChar 1 (\<lambda>h1. let c1 = hexCharToByte (c_char h1) in
               at_index hexChar 2 (\<lambda>h2. let c2 = hexCharToByte (c_char h2) in
               at_index hexChar 3 (\<lambda>h3. let c3 = hexCharToByte (c_char h3) in
               Inr [to_char (promote Utf8MultiLingPrefix OR (promote c0 AND 0b00001111)),
                    to_char (promote Utf8ContPrefix OR push_bit 2 (promote c1 AND 0b00001111)
                               OR drop_bit 2 (promote c2 AND 0b00001100)),
                    to_char (promote Utf8ContPrefix OR push_bit 4 (promote c2 AND 0b00000011)
                               OR (promote c3 AND 0b00001111))]))))
           | Extended \<Rightarrow>
               at_index hexChar 0 (\<lambda>h0. let c0 = hexCharToByte (c_char h0) in
               at_index hexChar 1 (\<lambda>h1. let c1 = hexCharToByte (c_char h1) in
               at_index hexChar 2 (\<lambda>h2. let c2 = hexCharToByte (c_char h2) in
               at_index hexChar 3 (\<lambda>h3. let c3 = hexCharToByte (c_char h3) in
               at_index hexChar 4 (\<lambda>h4. let c4 = hexCharToByte (c_char h4) in
               at_index hexChar 5 (\<lambda>h5. let c5 = hexCharToByte (c_char h5) in
               Inr [to_char (promote (to_char (promote Utf8ExtendedPrefix
                                                 OR push_bit 2 (promote c0 AND 0b00000001)))
                               OR drop_bit 2 (promote c1 AND 0b00001100)),
                    to_char (promote Utf8ContPrefix OR push_bit 4 (promote c1 AND 0b00000011)
                               OR (promote c2 AND 0b00001111)),
                    to_char (promote Utf8ContPrefix OR push_bit 2 (promote c3 AND 0b00001111)
                               OR drop_bit 2 (promote c4 AND 0b00001100)),
                    to_char (promote Utf8ContPrefix OR push_bit 4 (promote c4 AND 0b00000011)
                               OR (promote c5 AND 0b00001111))]))))))
           | Invalid \<Rightarrow> Inr []))"

section \<open>The specification's vocabulary\<close>

text \<open>
  The definitions of this section follow the words of the specification, not the code;
  the theorems below compare the code with them.

  A hex digit is one of \<^verbatim>\<open>0-9\<close>, \<^verbatim>\<open>a-f\<close>, \<^verbatim>\<open>A-F\<close>, with its value in 0..15.
\<close>

definition spec_hex_digits :: "(char \<times> nat) list" where
  "spec_hex_digits =
     [(CHR ''0'', 0), (CHR ''1'', 1), (CHR ''2'', 2), (CHR ''3'', 3), (CHR ''4'', 4),
      (CHR ''5'', 5), (CHR ''6'', 6), (CHR ''7'', 7), (CHR ''8'', 8), (CHR ''9'', 9),
      (CHR ''a'', 10), (CHR ''b'', 11), (CHR ''c'', 12), (CHR ''d'', 13), (CHR ''e'', 14),
      (CHR ''f'', 15),
      (CHR ''A'', 10), (CHR ''B'', 11), (CHR ''C'', 12), (CHR ''D'', 13), (CHR ''E'', 14),
      (CHR ''F'', 15)]"

definition spec_digit :: "char \<Rightarrow> nat option" where
  "spec_digit c = map_of spec_hex_digits c"

definition spec_is_hex :: "char \<Rightarrow> bool" where
  "spec_is_hex c = (spec_digit c \<noteq> None)"

definition spec_digit_val :: "char \<Rightarrow> nat" where
  "spec_digit_val c = (case spec_digit c of Some d \<Rightarrow> d | None \<Rightarrow> 0)"

text \<open>The big-endian value of a digit string: the sum of \<open>digit\<^sub>i * 16 ^ (n - 1 - i)\<close>.\<close>

definition spec_value :: "string \<Rightarrow> nat" where
  "spec_value s = (\<Sum>i<length s. spec_digit_val (s ! i) * 16 ^ (length s - 1 - i))"

text \<open>
  The hex-string representation of a code point, as the specification writes its
  examples and as its encoder expects it: four digits up to \<open>0xFFFF\<close>, six digits above.
\<close>

definition spec_hex_char :: "nat \<Rightarrow> char" where
  "spec_hex_char d = ''0123456789ABCDEF'' ! d"

definition spec_hex :: "nat \<Rightarrow> string" where
  "spec_hex cp =
     (if cp < 0x10000
      then map (\<lambda>i. spec_hex_char (cp div 16 ^ i mod 16)) [3, 2, 1, 0]
      else map (\<lambda>i. spec_hex_char (cp div 16 ^ i mod 16)) [5, 4, 3, 2, 1, 0])"

text \<open>
  A reference UTF-8 decoder for one code point, after the table of well-formed byte
  sequences of RFC 3629 and the Unicode standard: it rejects overlong forms, surrogates,
  values above \<open>0x10FFFF\<close> and every sequence of the wrong length.
\<close>

definition is_continuation :: "nat \<Rightarrow> bool" where
  "is_continuation b = (0x80 \<le> b \<and> b \<le> 0xBF)"

fun reference_decode_nat :: "nat list \<Rightarrow> nat option" where
  "reference_decode_nat [b0] = (if b0 \<le> 0x7F then Some b0 else None)"
| "reference_decode_nat [b0, b1] =
     (if 0xC2 \<le> b0 \<and> b0 \<le> 0xDF \<and> is_continuation b1
      then Some ((b0 - 0xC0) * 64 + (b1 - 0x80)) else None)"
| "reference_decode_nat [b0, b1, b2] =
     (if (b0 = 0xE0 \<and> 0xA0 \<le> b1 \<and> b1 \<le> 0xBF \<and> is_continuation b2)
         \<or> (0xE1 \<le> b0 \<and> b0 \<le> 0xEC \<and> is_continuation b1 \<and> is_continuation b2)
         \<or> (b0 = 0xED \<and> 0x80 \<le> b1 \<and> b1 \<le> 0x9F \<and> is_continuation b2)
         \<or> (0xEE \<le> b0 \<and> b0 \<le> 0xEF \<and> is_continuation b1 \<and> is_continuation b2)
      then Some ((b0 - 0xE0) * 4096 + (b1 - 0x80) * 64 + (b2 - 0x80)) else None)"
| "reference_decode_nat [b0, b1, b2, b3] =
     (if (b0 = 0xF0 \<and> 0x90 \<le> b1 \<and> b1 \<le> 0xBF \<and> is_continuation b2 \<and> is_continuation b3)
         \<or> (0xF1 \<le> b0 \<and> b0 \<le> 0xF3 \<and> is_continuation b1 \<and> is_continuation b2 \<and> is_continuation b3)
         \<or> (b0 = 0xF4 \<and> 0x80 \<le> b1 \<and> b1 \<le> 0x8F \<and> is_continuation b2 \<and> is_continuation b3)
      then Some ((b0 - 0xF0) * 262144 + (b1 - 0x80) * 4096 + (b2 - 0x80) * 64 + (b3 - 0x80))
      else None)"
| "reference_decode_nat _ = None"

definition reference_decode :: "cchar list \<Rightarrow> nat option" where
  "reference_decode bs = reference_decode_nat (map unat bs)"

section \<open>The hex-digit decoder agrees with the specification's digits\<close>

lemma to_char_minus1: "to_char (- 1) = - 1"
  unfolding to_char_def by (rule bit_word_eqI) (simp add: bit_simps)

lemma hexCharToByte_spec:
  "hexCharToByte (c_char c) = (case spec_digit c of Some d \<Rightarrow> of_nat d | None \<Rightarrow> - 1)"
proof (cases c)
  case (Char b0 b1 b2 b3 b4 b5 b6 b7)
  show ?thesis
    unfolding Char
    by (cases b0; cases b1; cases b2; cases b3; cases b4; cases b5; cases b6; cases b7;
        simp add: hexCharToByte_def c_char_def promote_def to_char_minus1 spec_digit_def
          spec_hex_digits_def;
        simp add: to_char_def)
qed

lemma spec_digit_lt16: "spec_digit c = Some d \<Longrightarrow> d < 16"
  by (auto simp: spec_digit_def spec_hex_digits_def split: if_splits)

lemma nibble_cases:
  "d < 16 \<Longrightarrow> d = 0 \<or> d = 1 \<or> d = 2 \<or> d = 3 \<or> d = 4 \<or> d = 5 \<or> d = 6 \<or> d = 7 \<or> d = 8 \<or> d = 9 \<or> d = 10 \<or> d = 11 \<or> d = 12 \<or> d = 13 \<or> d = 14 \<or> d = (15::nat)"
  by arith

lemma hexCharToByte_digit:
  "spec_digit c = Some d \<Longrightarrow> hexCharToByte (c_char c) = of_nat d"
  by (simp add: hexCharToByte_spec)

lemma hexCharToByte_nondigit:
  "spec_digit c = None \<Longrightarrow> hexCharToByte (c_char c) = - 1"
  by (simp add: hexCharToByte_spec)

lemma sint_nibble: "d < 16 \<Longrightarrow> sint (of_nat d :: 8 word) = int d"
  using nibble_cases[of d] by auto

lemma promote_nibble: "d < 16 \<Longrightarrow> promote (of_nat d) = of_nat d"
  using nibble_cases[of d] by (auto simp: promote_def)

section \<open>The parser computes the big-endian value\<close>

lemma shift_or_nibble:
  assumes "d < 16"
  shows "push_bit 4 (cp :: 32 word) OR of_nat d = cp * 16 + of_nat d"
proof -
  have d: "(of_nat d :: 32 word) = take_bit 4 (of_nat d)"
    using assms by (simp add: take_bit_of_nat take_bit_nat_eq_self)
  have "push_bit 4 cp AND take_bit 4 (of_nat d :: 32 word) = 0"
    by (rule bit_word_eqI) (auto simp: bit_simps)
  then have "push_bit 4 cp + of_nat d = push_bit 4 cp OR (of_nat d :: 32 word)"
    using d disjunctive_add_eq_or by metis
  then show ?thesis by (simp add: push_bit_eq_mult)
qed

lemma spec_value_Cons:
  "spec_value (c # cs) = spec_digit_val c * 16 ^ length cs + spec_value cs"
  by (simp add: spec_value_def sum.lessThan_Suc_shift del: sum.lessThan_Suc)

lemma spec_value_Nil: "spec_value [] = 0"
  by (simp add: spec_value_def)

lemma spec_value_bound:
  "spec_value cs < 16 ^ length cs" if "\<forall>c\<in>set cs. spec_is_hex c"
  using that
proof (induction cs)
  case Nil
  then show ?case by (simp add: spec_value_Nil)
next
  case (Cons c cs)
  then obtain d where d: "spec_digit c = Some d" by (auto simp: spec_is_hex_def)
  then have "spec_digit_val c < 16" by (simp add: spec_digit_val_def spec_digit_lt16)
  then have "spec_digit_val c * 16 ^ length cs \<le> 15 * 16 ^ length cs" by simp
  moreover have "spec_value cs < 16 ^ length cs" using Cons by simp
  ultimately have "spec_digit_val c * 16 ^ length cs + spec_value cs < 16 * 16 ^ length cs"
    by linarith
  then show ?case by (simp add: spec_value_Cons)
qed

lemma loop_hex:
  "\<forall>c\<in>set cs. spec_is_hex c \<Longrightarrow>
   hexCharToValue_loop cp 4 cs = Some (cp * 16 ^ length cs + of_nat (spec_value cs))"
proof (induction cs arbitrary: cp)
  case Nil
  then show ?case by (simp add: spec_value_Nil)
next
  case (Cons c cs)
  then obtain d where d: "spec_digit c = Some d" by (auto simp: spec_is_hex_def)
  then have d16: "d < 16" by (rule spec_digit_lt16)
  have dv: "spec_digit_val c = d" using d by (simp add: spec_digit_val_def)
  have "hexCharToValue_loop cp 4 (c # cs) = hexCharToValue_loop (cp * 16 + of_nat d) 4 cs"
    using d d16 by (simp add: hexCharToByte_digit sint_nibble promote_nibble shift_or_nibble)
  also have "\<dots> = Some ((cp * 16 + of_nat d) * 16 ^ length cs + of_nat (spec_value cs))"
    using Cons by simp
  finally show ?case by (simp add: spec_value_Cons dv algebra_simps)
qed

lemma loop_nonhex:
  "\<exists>c\<in>set cs. \<not> spec_is_hex c \<Longrightarrow> hexCharToValue_loop cp sh cs = None"
proof (induction cs arbitrary: cp sh)
  case Nil
  then show ?case by simp
next
  case (Cons c cs)
  show ?case
  proof (cases "spec_is_hex c")
    case True
    then have "\<exists>c\<in>set cs. \<not> spec_is_hex c" using Cons.prems by auto
    then show ?thesis using Cons.IH by (simp add: Let_def)
  next
    case False
    then show ?thesis by (simp add: spec_is_hex_def hexCharToByte_nondigit)
  qed
qed

lemma loop_first: "hexCharToValue_loop 0 0 cs = hexCharToValue_loop 0 4 cs"
  by (cases cs) (simp_all add: Let_def)

lemma hexCharToValue_char:
  "hexCharToValue s =
     (if s = [] \<or> odd (length s) \<or> 8 < length s \<or> (\<exists>c\<in>set s. \<not> spec_is_hex c) then None
      else Some (of_nat (spec_value s)))"
proof (cases "\<exists>c\<in>set s. \<not> spec_is_hex c")
  case True
  then show ?thesis by (simp add: hexCharToValue_def loop_nonhex)
next
  case False
  then have "hexCharToValue_loop 0 0 s = Some (of_nat (spec_value s))"
    by (simp add: loop_first loop_hex)
  then show ?thesis using False by (auto simp: hexCharToValue_def odd_iff_mod_2_eq_one)
qed

lemma unat_value:
  assumes "\<forall>c\<in>set s. spec_is_hex c" "length s \<le> 8"
  shows "unat (of_nat (spec_value s) :: 32 word) = spec_value s"
proof -
  have "spec_value s < 16 ^ length s" using assms(1) by (rule spec_value_bound)
  also have "\<dots> \<le> (16::nat) ^ 8" using assms(2) by (rule power_increasing) simp
  finally have "spec_value s < 2 ^ 32" by simp
  then show ?thesis by (simp add: unat_of_nat take_bit_nat_eq_self)
qed

section \<open>The byte expressions of the encoder, in arithmetic\<close>

lemma byte_latin1:
  assumes "d1 < 16" "d2 < 16"
  shows "unat (to_char (promote Utf8LatinPrefix OR push_bit 2 (promote (of_nat d1) AND 0b00000111)
                          OR drop_bit 2 (promote (of_nat d2) AND 0b00001100)))
         = 0xC0 + 4 * (d1 mod 8) + d2 div 4"
  using nibble_cases[OF assms(1)] nibble_cases[OF assms(2)]
  by (auto simp: to_char_def promote_def Utf8LatinPrefix_def)

lemma byte_cont_low:
  assumes "d2 < 16" "d3 < 16"
  shows "unat (to_char (promote Utf8ContPrefix OR push_bit 4 (promote (of_nat d2) AND 0b00000011)
                          OR (promote (of_nat d3) AND 0b00001111)))
         = 0x80 + 16 * (d2 mod 4) + d3"
  using nibble_cases[OF assms(1)] nibble_cases[OF assms(2)]
  by (auto simp: to_char_def promote_def Utf8ContPrefix_def)

lemma byte_cont_mid:
  assumes "d1 < 16" "d2 < 16"
  shows "unat (to_char (promote Utf8ContPrefix OR push_bit 2 (promote (of_nat d1) AND 0b00001111)
                          OR drop_bit 2 (promote (of_nat d2) AND 0b00001100)))
         = 0x80 + 4 * d1 + d2 div 4"
  using nibble_cases[OF assms(1)] nibble_cases[OF assms(2)]
  by (auto simp: to_char_def promote_def Utf8ContPrefix_def)

lemma byte_multiling1:
  assumes "d0 < 16"
  shows "unat (to_char (promote Utf8MultiLingPrefix OR (promote (of_nat d0) AND 0b00001111)))
         = 0xE0 + d0"
  using nibble_cases[OF assms(1)]
  by (auto simp: to_char_def promote_def Utf8MultiLingPrefix_def)

lemma byte_extended1:
  assumes "d0 < 16" "d1 < 16"
  shows "unat (to_char (promote (to_char (promote Utf8ExtendedPrefix
                                            OR push_bit 2 (promote (of_nat d0) AND 0b00000001)))
                          OR drop_bit 2 (promote (of_nat d1) AND 0b00001100)))
         = 0xF0 + 4 * (d0 mod 2) + d1 div 4"
  using nibble_cases[OF assms(1)] nibble_cases[OF assms(2)]
  by (auto simp: to_char_def promote_def Utf8ExtendedPrefix_def)

section \<open>The encoder, plane by plane\<close>

lemma nibble_at:
  assumes "\<forall>c\<in>set s. spec_is_hex c" "i < length s"
  shows "hexCharToByte (c_char (s ! i)) = of_nat (spec_digit_val (s ! i))"
    and "spec_digit_val (s ! i) < 16"
proof -
  have "spec_is_hex (s ! i)" using assms by simp
  then obtain d where d: "spec_digit (s ! i) = Some d" by (auto simp: spec_is_hex_def)
  show "hexCharToByte (c_char (s ! i)) = of_nat (spec_digit_val (s ! i))"
    using d by (simp add: hexCharToByte_digit spec_digit_val_def)
  show "spec_digit_val (s ! i) < 16"
    using d by (simp add: spec_digit_val_def spec_digit_lt16)
qed

lemma hexCharToValue_SomeD:
  assumes "hexCharToValue s = Some cp"
  shows "s \<noteq> []" "even (length s)" "length s \<le> 8" "\<forall>c\<in>set s. spec_is_hex c"
    "cp = of_nat (spec_value s)" "unat cp = spec_value s"
proof -
  show 1: "s \<noteq> []" "even (length s)" "length s \<le> 8" "\<forall>c\<in>set s. spec_is_hex c"
    "cp = of_nat (spec_value s)"
    using assms by (auto simp: hexCharToValue_char split: if_splits)
  show "unat cp = spec_value s"
    using 1 by (simp add: unat_value)
qed

lemma enc_ascii:
  assumes "hexCharToValue s = Some cp" "utf8CodePointType cp = Ascii"
  shows "hexCodepointToUtf8String s = Inr [to_char cp]"
  using assms by (simp add: hexCodepointToUtf8String_def)

lemma enc_invalid:
  assumes "hexCharToValue s = Some cp" "utf8CodePointType cp = Invalid"
  shows "hexCodepointToUtf8String s = Inr []"
  using assms by (simp add: hexCodepointToUtf8String_def)

lemma enc_none:
  assumes "hexCharToValue s = None"
  shows "hexCodepointToUtf8String s = Inr []"
  using assms by (simp add: hexCodepointToUtf8String_def)

lemma enc_latin:
  assumes "hexCharToValue s = Some cp" "utf8CodePointType cp = Latin" "4 \<le> length s"
  shows "\<exists>b1 b2. hexCodepointToUtf8String s = Inr [b1, b2]
           \<and> unat b1 = 0xC0 + 4 * (spec_digit_val (s ! 1) mod 8) + spec_digit_val (s ! 2) div 4
           \<and> unat b2 = 0x80 + 16 * (spec_digit_val (s ! 2) mod 4) + spec_digit_val (s ! 3)"
proof -
  note h = hexCharToValue_SomeD(4)[OF assms(1)]
  have i: "1 < length s" "2 < length s" "3 < length s" using assms(3) by auto
  note n = i[THEN nibble_at(1)[OF h]] and d = i[THEN nibble_at(2)[OF h]]
  have "hexCodepointToUtf8String s =
      Inr [to_char (promote Utf8LatinPrefix
                      OR push_bit 2 (promote (of_nat (spec_digit_val (s ! 1))) AND 0b00000111)
                      OR drop_bit 2 (promote (of_nat (spec_digit_val (s ! 2))) AND 0b00001100)),
           to_char (promote Utf8ContPrefix
                      OR push_bit 4 (promote (of_nat (spec_digit_val (s ! 2))) AND 0b00000011)
                      OR (promote (of_nat (spec_digit_val (s ! 3))) AND 0b00001111))]"
    by (simp only: hexCodepointToUtf8String_def assms(1,2) at_index_def Let_def n
        option.case Utf8CPType.case i if_True)
  then show ?thesis
    using byte_latin1[OF d(1) d(2)] byte_cont_low[OF d(2) d(3)] by blast
qed

lemma enc_latin_short:
  assumes "hexCharToValue s = Some cp" "utf8CodePointType cp = Latin" "length s < 4"
  shows "hexCodepointToUtf8String s = Inl OutOfRange"
  using assms by (simp add: hexCodepointToUtf8String_def at_index_def Let_def)

lemma enc_multilingual:
  assumes "hexCharToValue s = Some cp" "utf8CodePointType cp = MultiLingual" "4 \<le> length s"
  shows "\<exists>b1 b2 b3. hexCodepointToUtf8String s = Inr [b1, b2, b3]
           \<and> unat b1 = 0xE0 + spec_digit_val (s ! 0)
           \<and> unat b2 = 0x80 + 4 * spec_digit_val (s ! 1) + spec_digit_val (s ! 2) div 4
           \<and> unat b3 = 0x80 + 16 * (spec_digit_val (s ! 2) mod 4) + spec_digit_val (s ! 3)"
proof -
  note h = hexCharToValue_SomeD(4)[OF assms(1)]
  have i: "0 < length s" "1 < length s" "2 < length s" "3 < length s" using assms(3) by auto
  note n = i[THEN nibble_at(1)[OF h]] and d = i[THEN nibble_at(2)[OF h]]
  have "hexCodepointToUtf8String s =
      Inr [to_char (promote Utf8MultiLingPrefix
                      OR (promote (of_nat (spec_digit_val (s ! 0))) AND 0b00001111)),
           to_char (promote Utf8ContPrefix
                      OR push_bit 2 (promote (of_nat (spec_digit_val (s ! 1))) AND 0b00001111)
                      OR drop_bit 2 (promote (of_nat (spec_digit_val (s ! 2))) AND 0b00001100)),
           to_char (promote Utf8ContPrefix
                      OR push_bit 4 (promote (of_nat (spec_digit_val (s ! 2))) AND 0b00000011)
                      OR (promote (of_nat (spec_digit_val (s ! 3))) AND 0b00001111))]"
    by (simp only: hexCodepointToUtf8String_def assms(1,2) at_index_def Let_def n
        option.case Utf8CPType.case i if_True)
  then show ?thesis
    using byte_multiling1[OF d(1)] byte_cont_mid[OF d(2) d(3)] byte_cont_low[OF d(3) d(4)]
    by blast
qed

lemma enc_extended:
  assumes "hexCharToValue s = Some cp" "utf8CodePointType cp = Extended" "6 \<le> length s"
  shows "\<exists>b1 b2 b3 b4. hexCodepointToUtf8String s = Inr [b1, b2, b3, b4]
           \<and> unat b1 = 0xF0 + 4 * (spec_digit_val (s ! 0) mod 2) + spec_digit_val (s ! 1) div 4
           \<and> unat b2 = 0x80 + 16 * (spec_digit_val (s ! 1) mod 4) + spec_digit_val (s ! 2)
           \<and> unat b3 = 0x80 + 4 * spec_digit_val (s ! 3) + spec_digit_val (s ! 4) div 4
           \<and> unat b4 = 0x80 + 16 * (spec_digit_val (s ! 4) mod 4) + spec_digit_val (s ! 5)"
proof -
  note h = hexCharToValue_SomeD(4)[OF assms(1)]
  have i: "0 < length s" "1 < length s" "2 < length s" "3 < length s" "4 < length s"
    "5 < length s" using assms(3) by auto
  note n = i[THEN nibble_at(1)[OF h]] and d = i[THEN nibble_at(2)[OF h]]
  have "hexCodepointToUtf8String s =
      Inr [to_char (promote (to_char (promote Utf8ExtendedPrefix
                      OR push_bit 2 (promote (of_nat (spec_digit_val (s ! 0))) AND 0b00000001)))
                      OR drop_bit 2 (promote (of_nat (spec_digit_val (s ! 1))) AND 0b00001100)),
           to_char (promote Utf8ContPrefix
                      OR push_bit 4 (promote (of_nat (spec_digit_val (s ! 1))) AND 0b00000011)
                      OR (promote (of_nat (spec_digit_val (s ! 2))) AND 0b00001111)),
           to_char (promote Utf8ContPrefix
                      OR push_bit 2 (promote (of_nat (spec_digit_val (s ! 3))) AND 0b00001111)
                      OR drop_bit 2 (promote (of_nat (spec_digit_val (s ! 4))) AND 0b00001100)),
           to_char (promote Utf8ContPrefix
                      OR push_bit 4 (promote (of_nat (spec_digit_val (s ! 4))) AND 0b00000011)
                      OR (promote (of_nat (spec_digit_val (s ! 5))) AND 0b00001111))]"
    by (simp only: hexCodepointToUtf8String_def assms(1,2) at_index_def Let_def n
        option.case Utf8CPType.case i if_True)
  then show ?thesis
    using byte_extended1[OF d(1) d(2)] byte_cont_low[OF d(2) d(3)]
      byte_cont_mid[OF d(4) d(5)] byte_cont_low[OF d(5) d(6)]
    by blast
qed

section \<open>Values, signed readings and planes\<close>

lemma valid_parse:
  assumes "s \<noteq> []" "even (length s)" "length s \<le> 8" "\<forall>c\<in>set s. spec_is_hex c"
  shows "hexCharToValue s = Some (of_nat (spec_value s))"
  using assms by (simp add: hexCharToValue_char)

lemma sint_value:
  "sint (of_nat v :: 32 word) = (int v + 2 ^ 31) mod 2 ^ 32 - 2 ^ 31"
proof -
  have "(of_nat v :: 32 word) = word_of_int (int v)" by simp
  then show ?thesis by (simp only: int_word_sint) simp
qed

lemma sint_value_small:
  assumes "v < 2 ^ 31"
  shows "sint (of_nat v :: 32 word) = int v"
  using assms by (simp add: sint_value)

lemma sint_value_large:
  assumes "2 ^ 31 \<le> v" "v < 2 ^ 32"
  shows "sint (of_nat v :: 32 word) = int v - 2 ^ 32"
proof -
  have "(int v + 2 ^ 31) mod 2 ^ 32 = int v - 2 ^ 31"
    using assms by (simp add: mod_pos_geq)
  then show ?thesis by (simp add: sint_value)
qed

lemma classify_value:
  assumes "v < 2 ^ 31"
  shows "utf8CodePointType (of_nat v) =
     (if v \<le> 0x7F then Ascii
      else if v \<le> 0x7FF then Latin
      else if v < 0xD800 \<or> (0xDFFF < v \<and> v \<le> 0xFFFF) then MultiLingual
      else if 0xFFFF < v \<and> v \<le> 0x10FFFF then Extended
      else Invalid)"
  using assms by (simp add: utf8CodePointType_def sint_value_small)

lemma classify_value_large:
  assumes "2 ^ 31 \<le> v" "v < 2 ^ 32"
  shows "utf8CodePointType (of_nat v) = Invalid"
  using assms by (simp add: utf8CodePointType_def sint_value_large)

lemma valid_value_bound:
  assumes "length s \<le> 8" "\<forall>c\<in>set s. spec_is_hex c"
  shows "spec_value s < 2 ^ 32"
proof -
  have "spec_value s < 16 ^ length s" using assms(2) by (rule spec_value_bound)
  also have "\<dots> \<le> (16::nat) ^ 8" using assms(1) by (rule power_increasing) simp
  finally show ?thesis by simp
qed

lemma spec_value4:
  "spec_value [h0, h1, h2, h3] =
     4096 * spec_digit_val h0 + 256 * spec_digit_val h1 + 16 * spec_digit_val h2 + spec_digit_val h3"
  by (simp add: spec_value_Cons spec_value_Nil)

lemma spec_value6:
  "spec_value [h0, h1, h2, h3, h4, h5] =
     1048576 * spec_digit_val h0 + 65536 * spec_digit_val h1 + 4096 * spec_digit_val h2
       + 256 * spec_digit_val h3 + 16 * spec_digit_val h4 + spec_digit_val h5"
  by (simp add: spec_value_Cons spec_value_Nil)

lemma plane_of_value:
  assumes "hexCharToValue s = Some cp"
  shows "utf8CodePointType cp =
     (if spec_value s \<le> 0x7F then Ascii
      else if spec_value s \<le> 0x7FF then Latin
      else if spec_value s < 0xD800 \<or> (0xDFFF < spec_value s \<and> spec_value s \<le> 0xFFFF)
      then MultiLingual
      else if 0xFFFF < spec_value s \<and> spec_value s \<le> 0x10FFFF then Extended
      else Invalid)"
proof -
  note d = hexCharToValue_SomeD[OF assms]
  have b: "spec_value s < 2 ^ 32" using d(3,4) by (rule valid_value_bound)
  show ?thesis
  proof (cases "spec_value s < 2 ^ 31")
    case True
    then show ?thesis unfolding d(5) by (rule classify_value)
  next
    case False
    then have "utf8CodePointType cp = Invalid"
      unfolding d(5) using b by (intro classify_value_large) auto
    then show ?thesis using False by simp
  qed
qed

lemma digits_needed:
  assumes "hexCharToValue s = Some cp"
  shows "0xFF < spec_value s \<Longrightarrow> 4 \<le> length s"
    and "0xFFFF < spec_value s \<Longrightarrow> 6 \<le> length s"
proof -
  note d = hexCharToValue_SomeD[OF assms]
  have b: "spec_value s < 16 ^ length s" using d(4) by (rule spec_value_bound)
  show "4 \<le> length s" if "0xFF < spec_value s"
  proof -
    have "(16::nat) ^ 2 < 16 ^ length s" using that b by simp
    then have "2 < length s" by (simp only: power_strict_increasing_iff) 
    then show ?thesis using d(2) by (auto elim!: evenE)
  qed
  show "6 \<le> length s" if "0xFFFF < spec_value s"
  proof -
    have "(16::nat) ^ 4 < 16 ^ length s" using that b by simp
    then have "4 < length s" by (simp only: power_strict_increasing_iff)
    then show ?thesis using d(2) by (auto elim!: evenE)
  qed
qed

lemma short_is_two:
  assumes "hexCharToValue s = Some cp" "length s < 4"
  shows "length s = 2"
proof -
  have "length s \<noteq> 0" "even (length s)"
    using hexCharToValue_SomeD(1,2)[OF assms(1)] by simp_all
  then show ?thesis using assms(2) by presburger
qed

lemma to_char_small:
  assumes "v \<le> 0x7F"
  shows "unat (to_char (of_nat v)) = v"
proof -
  have "take_bit 32 v = v" using assms by (simp add: take_bit_nat_eq_self)
  then have "to_char (of_nat v) = (of_nat v :: 8 word)"
    unfolding to_char_def by (simp add: unsigned_of_nat)
  then show ?thesis using assms by (simp add: unat_of_nat)
qed

lemmas eval_defs = hexCodepointToUtf8String_def hexCharToValue_def hexCharToByte_def c_char_def
  promote_def to_char_def to_char_minus1 utf8CodePointType_def at_index_def
  Utf8ContPrefix_def Utf8LatinPrefix_def Utf8MultiLingPrefix_def Utf8ExtendedPrefix_def

lemmas spec_defs = spec_is_hex_def spec_digit_def spec_hex_digits_def spec_digit_val_def

section \<open>Arithmetic of digits, bytes and the reference decoder\<close>

lemma divmod_unique:
  fixes k r n :: nat
  assumes "r < n"
  shows "(k * n + r) div n = k" and "(k * n + r) mod n = r"
  using assms by simp_all

lemma split64:
  fixes d2 d3 :: nat
  assumes "d2 < 16" "d3 < 16"
  shows "(64 * q + 16 * d2 + d3) div 64 = q + d2 div 4"
    and "(64 * q + 16 * d2 + d3) mod 64 = 16 * (d2 mod 4) + d3"
proof -
  have m: "d2 mod 4 < 4" by simp
  have "16 * d2 = 64 * (d2 div 4) + 16 * (d2 mod 4)"
    using mult_div_mod_eq[of 4 d2] by linarith
  then have e: "64 * q + 16 * d2 + d3 = (q + d2 div 4) * 64 + (16 * (d2 mod 4) + d3)"
    by (simp add: algebra_simps)
  have r: "16 * (d2 mod 4) + d3 < 64" using m assms(2) by linarith
  show "(64 * q + 16 * d2 + d3) div 64 = q + d2 div 4"
    unfolding e using r by (rule divmod_unique)
  show "(64 * q + 16 * d2 + d3) mod 64 = 16 * (d2 mod 4) + d3"
    unfolding e using r by (rule divmod_unique)
qed

lemma decode_std1:
  assumes "v \<le> 0x7F"
  shows "reference_decode_nat [v] = Some v"
  using assms by simp

lemma decode_std2:
  assumes "0x80 \<le> v" "v \<le> 0x7FF"
  shows "reference_decode_nat [0xC0 + v div 64, 0x80 + v mod 64] = Some v"
proof -
  have e: "v = 64 * (v div 64) + v mod 64" by simp
  have m: "v mod 64 < 64" by simp
  have "2 \<le> v div 64" "v div 64 \<le> 31" using assms e m by linarith+
  then show ?thesis using m by (simp add: is_continuation_def)
qed

lemma decode_std3:
  assumes "0x800 \<le> v" "v \<le> 0xFFFF" "v < 0xD800 \<or> 0xDFFF < v"
  shows "reference_decode_nat [0xE0 + v div 4096, 0x80 + v div 64 mod 64, 0x80 + v mod 64] = Some v"
proof -
  define a where "a = v div 4096"
  define b where "b = v div 64 mod 64"
  define c where "c = v mod 64"
  have "v div 4096 = v div 64 div 64" by (simp add: div_mult2_eq)
  then have "v div 64 = 64 * a + b" unfolding a_def b_def by simp
  moreover have "v = 64 * (v div 64) + c" unfolding c_def by simp
  ultimately have e: "v = 4096 * a + 64 * b + c" by linarith
  have m: "b < 64" "c < 64" unfolding b_def c_def by simp_all
  have r: "a \<le> 15" using assms(2) e by linarith
  have lo: "a = 0 \<Longrightarrow> 32 \<le> b" using assms(1) e m by linarith
  have sur: "a = 13 \<Longrightarrow> b < 32" using assms(2,3) e m by linarith
  consider "a = 0" | "1 \<le> a \<and> a \<le> 12" | "a = 13" | "a = 14 \<or> a = 15"
    using r by linarith
  then have "reference_decode_nat [0xE0 + a, 0x80 + b, 0x80 + c] = Some v"
  proof cases
    case 1
    then show ?thesis using m lo by (simp add: is_continuation_def e)
  next
    case 2
    then show ?thesis using m by (simp add: is_continuation_def e)
  next
    case 3
    then show ?thesis using m sur by (simp add: is_continuation_def e)
  next
    case 4
    then show ?thesis using m by (auto simp: is_continuation_def e)
  qed
  then show ?thesis unfolding a_def b_def c_def .
qed

lemma decode_std4:
  assumes "0x10000 \<le> v" "v \<le> 0x10FFFF"
  shows "reference_decode_nat [0xF0 + v div 262144, 0x80 + v div 4096 mod 64,
                          0x80 + v div 64 mod 64, 0x80 + v mod 64] = Some v"
proof -
  define a where "a = v div 262144"
  define b where "b = v div 4096 mod 64"
  define c where "c = v div 64 mod 64"
  define d where "d = v mod 64"
  have "v div 4096 = v div 64 div 64" by (simp add: div_mult2_eq)
  then have 1: "v div 64 = 64 * (v div 4096) + c" unfolding c_def by simp
  have "v div 262144 = v div 4096 div 64" by (simp add: div_mult2_eq)
  then have 2: "v div 4096 = 64 * a + b" unfolding a_def b_def by simp
  have 3: "v = 64 * (v div 64) + d" unfolding d_def by simp
  have e: "v = 262144 * a + 4096 * b + 64 * c + d" using 1 2 3 by linarith
  have m: "b < 64" "c < 64" "d < 64" unfolding b_def c_def d_def by simp_all
  have r: "a \<le> 4" using assms(2) e by linarith
  have lo: "a = 0 \<Longrightarrow> 16 \<le> b" using assms(1) e m by linarith
  have hi: "a = 4 \<Longrightarrow> b < 16" using assms(2) e m by linarith
  consider "a = 0" | "1 \<le> a \<and> a \<le> 3" | "a = 4"
    using r by linarith
  then have "reference_decode_nat [0xF0 + a, 0x80 + b, 0x80 + c, 0x80 + d] = Some v"
  proof cases
    case 1
    then show ?thesis using m lo by (simp add: is_continuation_def e)
  next
    case 2
    then show ?thesis using m by (simp add: is_continuation_def e)
  next
    case 3
    then show ?thesis using m hi by (simp add: is_continuation_def e)
  qed
  then show ?thesis unfolding a_def b_def c_def d_def .
qed

lemma digits4_div:
  fixes d0 d1 d2 d3 :: nat
  assumes "d0 < 16" "d1 < 16" "d2 < 16" "d3 < 16"
  defines "v \<equiv> 4096 * d0 + 256 * d1 + 16 * d2 + d3"
  shows "v div 64 = 64 * d0 + 4 * d1 + d2 div 4"
    and "v mod 64 = 16 * (d2 mod 4) + d3"
    and "v div 64 mod 64 = 4 * d1 + d2 div 4"
    and "v div 4096 = d0"
proof -
  have e: "v = 64 * (64 * d0 + 4 * d1) + 16 * d2 + d3" unfolding v_def by simp
  show 1: "v div 64 = 64 * d0 + 4 * d1 + d2 div 4"
    unfolding e using assms(3,4) by (rule split64)
  show "v mod 64 = 16 * (d2 mod 4) + d3"
    unfolding e using assms(3,4) by (rule split64)
  have "d2 div 4 < 4" using assms(3) by simp
  then have r: "4 * d1 + d2 div 4 < 64" using assms(2) by linarith
  have "v div 64 = d0 * 64 + (4 * d1 + d2 div 4)" using 1 by simp
  then show 2: "v div 64 mod 64 = 4 * d1 + d2 div 4"
    using r by (simp only: divmod_unique)
  have "v div 4096 = v div 64 div 64" by (simp add: div_mult2_eq)
  also have "\<dots> = (d0 * 64 + (4 * d1 + d2 div 4)) div 64" using 1 by simp
  also have "\<dots> = d0" using r by (rule divmod_unique)
  finally show "v div 4096 = d0" .
qed

lemma digits6_div:
  fixes d0 d1 d2 d3 d4 d5 :: nat
  assumes "d0 < 16" "d1 < 16" "d2 < 16" "d3 < 16" "d4 < 16" "d5 < 16"
  defines "v \<equiv> 1048576 * d0 + 65536 * d1 + 4096 * d2 + 256 * d3 + 16 * d4 + d5"
  shows "v mod 64 = 16 * (d4 mod 4) + d5"
    and "v div 64 mod 64 = 4 * d3 + d4 div 4"
    and "v div 4096 mod 64 = 16 * (d1 mod 4) + d2"
    and "v div 262144 = 4 * d0 + d1 div 4"
proof -
  define u where "u = 256 * d0 + 16 * d1 + d2"
  have e: "v = 64 * (64 * u + 4 * d3) + 16 * d4 + d5" unfolding v_def u_def by simp
  have 1: "v div 64 = 64 * u + 4 * d3 + d4 div 4"
    unfolding e using assms(5,6) by (rule split64)
  show "v mod 64 = 16 * (d4 mod 4) + d5"
    unfolding e using assms(5,6) by (rule split64)
  have "d4 div 4 < 4" using assms(5) by simp
  then have r: "4 * d3 + d4 div 4 < 64" using assms(4) by linarith
  have w1: "v div 64 = u * 64 + (4 * d3 + d4 div 4)" using 1 by simp
  show "v div 64 mod 64 = 4 * d3 + d4 div 4"
    unfolding w1 using r by (rule divmod_unique)
  have "v div 4096 = v div 64 div 64" by (simp add: div_mult2_eq)
  also have "\<dots> = u" unfolding w1 using r by (rule divmod_unique)
  finally have 2: "v div 4096 = u" .
  have eu: "u = 64 * (4 * d0) + 16 * d1 + d2" unfolding u_def by simp
  show "v div 4096 mod 64 = 16 * (d1 mod 4) + d2"
    unfolding 2 eu using assms(2,3) by (rule split64)
  have "v div 262144 = v div 4096 div 64" by (simp add: div_mult2_eq)
  also have "\<dots> = 4 * d0 + d1 div 4"
    unfolding 2 eu using assms(2,3) by (rule split64)
  finally show "v div 262144 = 4 * d0 + d1 div 4" .
qed

section \<open>Four and six digits: the encoder in terms of the value\<close>

lemma four_digits:
  assumes "length s = 4"
  obtains h0 h1 h2 h3 where "s = [h0, h1, h2, h3]"
  using assms by (auto simp: length_Suc_conv numeral_eq_Suc)

lemma six_digits:
  assumes "length s = 6"
  obtains h0 h1 h2 h3 h4 h5 where "s = [h0, h1, h2, h3, h4, h5]"
  using assms by (auto simp: length_Suc_conv numeral_eq_Suc)

lemma spec_digit_val_lt16: "spec_is_hex c \<Longrightarrow> spec_digit_val c < 16"
  by (auto simp: spec_is_hex_def spec_digit_val_def spec_digit_lt16)

lemma enc4_latin_std:
  assumes "length s = 4" "\<forall>c\<in>set s. spec_is_hex c"
    "0x80 \<le> spec_value s" "spec_value s \<le> 0x7FF"
  shows "\<exists>b1 b2. hexCodepointToUtf8String s = Inr [b1, b2]
           \<and> unat b1 = 0xC0 + spec_value s div 64
           \<and> unat b2 = 0x80 + spec_value s mod 64"
proof -
  obtain h0 h1 h2 h3 where s: "s = [h0, h1, h2, h3]" using assms(1) by (rule four_digits)
  have d: "spec_digit_val h0 < 16" "spec_digit_val h1 < 16" "spec_digit_val h2 < 16" "spec_digit_val h3 < 16"
    using assms(2) by (simp_all add: s spec_digit_val_lt16)
  have p: "hexCharToValue s = Some (of_nat (spec_value s))"
    using assms(1,2) by (intro valid_parse) auto
  have t: "utf8CodePointType (of_nat (spec_value s)) = Latin"
    using assms(3,4) by (simp add: plane_of_value[OF p])
  have "4 \<le> length s" using assms(1) by simp
  from enc_latin[OF p t this] obtain b1 b2 where
    b: "hexCodepointToUtf8String s = Inr [b1, b2]"
       "unat b1 = 0xC0 + 4 * (spec_digit_val h1 mod 8) + spec_digit_val h2 div 4"
       "unat b2 = 0x80 + 16 * (spec_digit_val h2 mod 4) + spec_digit_val h3"
    unfolding s by auto
  have v: "spec_value s = 4096 * spec_digit_val h0 + 256 * spec_digit_val h1 + 16 * spec_digit_val h2 + spec_digit_val h3"
    unfolding s by (rule spec_value4)
  have "spec_digit_val h0 = 0" "spec_digit_val h1 < 8" using assms(4) v by linarith+
  then have "unat b1 = 0xC0 + spec_value s div 64" "unat b2 = 0x80 + spec_value s mod 64"
    using b(2,3) unfolding v digits4_div(1,2)[OF d] by simp_all
  then show ?thesis using b(1) by blast
qed

lemma enc4_multilingual_std:
  assumes "length s = 4" "\<forall>c\<in>set s. spec_is_hex c"
    "0x800 \<le> spec_value s" "spec_value s < 0xD800 \<or> 0xDFFF < spec_value s"
  shows "\<exists>b1 b2 b3. hexCodepointToUtf8String s = Inr [b1, b2, b3]
           \<and> unat b1 = 0xE0 + spec_value s div 4096
           \<and> unat b2 = 0x80 + spec_value s div 64 mod 64
           \<and> unat b3 = 0x80 + spec_value s mod 64"
proof -
  obtain h0 h1 h2 h3 where s: "s = [h0, h1, h2, h3]" using assms(1) by (rule four_digits)
  have d: "spec_digit_val h0 < 16" "spec_digit_val h1 < 16" "spec_digit_val h2 < 16" "spec_digit_val h3 < 16"
    using assms(2) by (simp_all add: s spec_digit_val_lt16)
  have p: "hexCharToValue s = Some (of_nat (spec_value s))"
    using assms(1,2) by (intro valid_parse) auto
  have v: "spec_value s = 4096 * spec_digit_val h0 + 256 * spec_digit_val h1 + 16 * spec_digit_val h2 + spec_digit_val h3"
    unfolding s by (rule spec_value4)
  have "spec_value s \<le> 0xFFFF" using d v by linarith
  then have t: "utf8CodePointType (of_nat (spec_value s)) = MultiLingual"
    using assms(3,4) by (auto simp: plane_of_value[OF p])
  have "4 \<le> length s" using assms(1) by simp
  from enc_multilingual[OF p t this] obtain b1 b2 b3 where
    b: "hexCodepointToUtf8String s = Inr [b1, b2, b3]"
       "unat b1 = 0xE0 + spec_digit_val h0"
       "unat b2 = 0x80 + 4 * spec_digit_val h1 + spec_digit_val h2 div 4"
       "unat b3 = 0x80 + 16 * (spec_digit_val h2 mod 4) + spec_digit_val h3"
    unfolding s by auto
  have "unat b1 = 0xE0 + spec_value s div 4096" "unat b2 = 0x80 + spec_value s div 64 mod 64"
    "unat b3 = 0x80 + spec_value s mod 64"
    using b(2,3,4) unfolding v digits4_div(2,3,4)[OF d] by simp_all
  then show ?thesis using b(1) by blast
qed

lemma enc6_extended_std:
  assumes "length s = 6" "\<forall>c\<in>set s. spec_is_hex c"
    "0x10000 \<le> spec_value s" "spec_value s \<le> 0x10FFFF"
  shows "\<exists>b1 b2 b3 b4. hexCodepointToUtf8String s = Inr [b1, b2, b3, b4]
           \<and> unat b1 = 0xF0 + 4 * spec_digit_val (s ! 0) + spec_digit_val (s ! 1) div 4
           \<and> unat b2 = 0x80 + 16 * (spec_digit_val (s ! 1) mod 4) + spec_digit_val (s ! 2)
           \<and> unat b3 = 0x80 + 4 * spec_digit_val (s ! 3) + spec_digit_val (s ! 4) div 4
           \<and> unat b4 = 0x80 + 16 * (spec_digit_val (s ! 4) mod 4) + spec_digit_val (s ! 5)
           \<and> unat b1 = 0xF0 + spec_value s div 262144
           \<and> unat b2 = 0x80 + spec_value s div 4096 mod 64
           \<and> unat b3 = 0x80 + spec_value s div 64 mod 64
           \<and> unat b4 = 0x80 + spec_value s mod 64"
proof -
  obtain h0 h1 h2 h3 h4 h5 where s: "s = [h0, h1, h2, h3, h4, h5]"
    using assms(1) by (rule six_digits)
  have d: "spec_digit_val h0 < 16" "spec_digit_val h1 < 16" "spec_digit_val h2 < 16" "spec_digit_val h3 < 16"
    "spec_digit_val h4 < 16" "spec_digit_val h5 < 16"
    using assms(2) by (simp_all add: s spec_digit_val_lt16)
  have p: "hexCharToValue s = Some (of_nat (spec_value s))"
    using assms(1,2) by (intro valid_parse) auto
  have v: "spec_value s = 1048576 * spec_digit_val h0 + 65536 * spec_digit_val h1 + 4096 * spec_digit_val h2
             + 256 * spec_digit_val h3 + 16 * spec_digit_val h4 + spec_digit_val h5"
    unfolding s by (rule spec_value6)
  have t: "utf8CodePointType (of_nat (spec_value s)) = Extended"
    using assms(3,4) by (auto simp: plane_of_value[OF p])
  have "6 \<le> length s" using assms(1) by simp
  from enc_extended[OF p t this] obtain b1 b2 b3 b4 where
    b: "hexCodepointToUtf8String s = Inr [b1, b2, b3, b4]"
       "unat b1 = 0xF0 + 4 * (spec_digit_val h0 mod 2) + spec_digit_val h1 div 4"
       "unat b2 = 0x80 + 16 * (spec_digit_val h1 mod 4) + spec_digit_val h2"
       "unat b3 = 0x80 + 4 * spec_digit_val h3 + spec_digit_val h4 div 4"
       "unat b4 = 0x80 + 16 * (spec_digit_val h4 mod 4) + spec_digit_val h5"
    unfolding s by auto
  have "spec_digit_val h0 \<le> 1" using assms(4) v by linarith
  then have u: "spec_digit_val h0 mod 2 = spec_digit_val h0" by simp
  have n: "unat b1 = 0xF0 + 4 * spec_digit_val (s ! 0) + spec_digit_val (s ! 1) div 4"
    "unat b2 = 0x80 + 16 * (spec_digit_val (s ! 1) mod 4) + spec_digit_val (s ! 2)"
    "unat b3 = 0x80 + 4 * spec_digit_val (s ! 3) + spec_digit_val (s ! 4) div 4"
    "unat b4 = 0x80 + 16 * (spec_digit_val (s ! 4) mod 4) + spec_digit_val (s ! 5)"
    using b(2,3,4,5) u unfolding s by simp_all
  have "unat b1 = 0xF0 + spec_value s div 262144"
    "unat b2 = 0x80 + spec_value s div 4096 mod 64"
    "unat b3 = 0x80 + spec_value s div 64 mod 64"
    "unat b4 = 0x80 + spec_value s mod 64"
    using b(2,3,4,5) u unfolding v digits6_div[OF d] by simp_all
  then show ?thesis using b(1) n by blast
qed

section \<open>Decoding what the encoder produced\<close>

lemma roundtrip4:
  assumes "length s = 4" "\<forall>c\<in>set s. spec_is_hex c"
    "spec_value s < 0xD800 \<or> 0xDFFF < spec_value s"
  shows "\<exists>bs. hexCodepointToUtf8String s = Inr bs \<and> reference_decode bs = Some (spec_value s)"
proof -
  consider "spec_value s \<le> 0x7F" | "0x80 \<le> spec_value s \<and> spec_value s \<le> 0x7FF"
    | "0x800 \<le> spec_value s" by linarith
  then show ?thesis
  proof cases
    case 1
    have p: "hexCharToValue s = Some (of_nat (spec_value s))"
      using assms(1,2) by (intro valid_parse) auto
    have "utf8CodePointType (of_nat (spec_value s)) = Ascii"
      using 1 by (simp add: plane_of_value[OF p])
    with p have "hexCodepointToUtf8String s = Inr [to_char (of_nat (spec_value s))]"
      by (rule enc_ascii)
    moreover have "reference_decode [to_char (of_nat (spec_value s))] = Some (spec_value s)"
      using 1 by (simp add: reference_decode_def to_char_small)
    ultimately show ?thesis by blast
  next
    case 2
    then obtain b1 b2 where "hexCodepointToUtf8String s = Inr [b1, b2]"
      "unat b1 = 0xC0 + spec_value s div 64" "unat b2 = 0x80 + spec_value s mod 64"
      using enc4_latin_std[OF assms(1,2)] by blast
    moreover from this have "reference_decode [b1, b2] = Some (spec_value s)"
      using 2 by (simp only: reference_decode_def list.map decode_std2)
    ultimately show ?thesis by blast
  next
    case 3
    obtain h0 h1 h2 h3 where s: "s = [h0, h1, h2, h3]" using assms(1) by (rule four_digits)
    have d: "spec_digit_val h0 < 16" "spec_digit_val h1 < 16" "spec_digit_val h2 < 16" "spec_digit_val h3 < 16"
      using assms(2) by (simp_all add: s spec_digit_val_lt16)
    have hi: "spec_value s \<le> 0xFFFF" using d unfolding s spec_value4 by linarith
    obtain b1 b2 b3 where "hexCodepointToUtf8String s = Inr [b1, b2, b3]"
      "unat b1 = 0xE0 + spec_value s div 4096" "unat b2 = 0x80 + spec_value s div 64 mod 64"
      "unat b3 = 0x80 + spec_value s mod 64"
      using enc4_multilingual_std[OF assms(1,2) 3 assms(3)] by blast
    moreover from this have "reference_decode [b1, b2, b3] = Some (spec_value s)"
      using 3 hi assms(3) by (simp only: reference_decode_def list.map decode_std3)
    ultimately show ?thesis by blast
  qed
qed

lemma roundtrip6:
  assumes "length s = 6" "\<forall>c\<in>set s. spec_is_hex c"
    "0x10000 \<le> spec_value s" "spec_value s \<le> 0x10FFFF"
  shows "\<exists>bs. hexCodepointToUtf8String s = Inr bs \<and> reference_decode bs = Some (spec_value s)"
proof -
  obtain b1 b2 b3 b4 where "hexCodepointToUtf8String s = Inr [b1, b2, b3, b4]"
    "unat b1 = 0xF0 + spec_value s div 262144" "unat b2 = 0x80 + spec_value s div 4096 mod 64"
    "unat b3 = 0x80 + spec_value s div 64 mod 64" "unat b4 = 0x80 + spec_value s mod 64"
    using enc6_extended_std[OF assms] by blast
  moreover from this have "reference_decode [b1, b2, b3, b4] = Some (spec_value s)"
    using assms(3,4) by (simp only: reference_decode_def list.map decode_std4)
  ultimately show ?thesis by blast
qed

lemma hex_char_digit:
  assumes "d < 16"
  shows "spec_digit (spec_hex_char d) = Some d"
  using nibble_cases[OF assms]
  by (auto simp: spec_hex_char_def spec_digit_def spec_hex_digits_def)

lemma hex_char_props:
  assumes "d < 16"
  shows "spec_is_hex (spec_hex_char d)" "spec_digit_val (spec_hex_char d) = d"
  using hex_char_digit[OF assms] by (simp_all add: spec_is_hex_def spec_digit_val_def)

lemma hex_char_mod: "spec_digit_val (spec_hex_char (x mod 16)) = x mod 16"
  by (rule hex_char_props) simp

lemma nibbles_of_value:
  fixes v :: nat
  shows "v = 16 * (v div 16) + v mod 16"
    and "v div 16 = 16 * (v div 256) + v div 16 mod 16"
    and "v div 256 = 16 * (v div 4096) + v div 256 mod 16"
    and "v div 4096 = 16 * (v div 65536) + v div 4096 mod 16"
    and "v div 65536 = 16 * (v div 1048576) + v div 65536 mod 16"
proof -
  show "v = 16 * (v div 16) + v mod 16" by simp
  have "v div 256 = v div 16 div 16" by (simp add: div_mult2_eq)
  then show "v div 16 = 16 * (v div 256) + v div 16 mod 16" by simp
  have "v div 4096 = v div 256 div 16" by (simp add: div_mult2_eq)
  then show "v div 256 = 16 * (v div 4096) + v div 256 mod 16" by simp
  have "v div 65536 = v div 4096 div 16" by (simp add: div_mult2_eq)
  then show "v div 4096 = 16 * (v div 65536) + v div 4096 mod 16" by simp
  have "v div 1048576 = v div 65536 div 16" by (simp add: div_mult2_eq)
  then show "v div 65536 = 16 * (v div 1048576) + v div 65536 mod 16" by simp
qed

lemma spec_hex4:
  assumes "cp < 0x10000"
  shows "length (spec_hex cp) = 4" "\<forall>c\<in>set (spec_hex cp). spec_is_hex c"
    "spec_value (spec_hex cp) = cp"
proof -
  have s: "spec_hex cp = [spec_hex_char (cp div 4096 mod 16), spec_hex_char (cp div 256 mod 16),
                          spec_hex_char (cp div 16 mod 16), spec_hex_char (cp mod 16)]"
    using assms by (simp add: spec_hex_def)
  show "length (spec_hex cp) = 4" unfolding s by simp
  show "\<forall>c\<in>set (spec_hex cp). spec_is_hex c" unfolding s by (simp add: hex_char_props)
  have "cp div 65536 = 0" using assms by simp
  then have "4096 * (cp div 4096 mod 16) + 256 * (cp div 256 mod 16) + 16 * (cp div 16 mod 16)
              + cp mod 16 = cp"
    using nibbles_of_value(1,2,3,4)[of cp] by linarith
  then show "spec_value (spec_hex cp) = cp"
    unfolding s spec_value4 hex_char_mod .
qed

lemma spec_hex6:
  assumes "0x10000 \<le> cp" "cp \<le> 0x10FFFF"
  shows "length (spec_hex cp) = 6" "\<forall>c\<in>set (spec_hex cp). spec_is_hex c"
    "spec_value (spec_hex cp) = cp"
proof -
  have s: "spec_hex cp = [spec_hex_char (cp div 1048576 mod 16), spec_hex_char (cp div 65536 mod 16),
                          spec_hex_char (cp div 4096 mod 16), spec_hex_char (cp div 256 mod 16),
                          spec_hex_char (cp div 16 mod 16), spec_hex_char (cp mod 16)]"
    using assms by (simp add: spec_hex_def)
  show "length (spec_hex cp) = 6" unfolding s by simp
  show "\<forall>c\<in>set (spec_hex cp). spec_is_hex c" unfolding s by (simp add: hex_char_props)
  have "cp div 1048576 < 16" using assms by simp
  then have "cp div 1048576 mod 16 = cp div 1048576" by simp
  then have "1048576 * (cp div 1048576 mod 16) + 65536 * (cp div 65536 mod 16)
              + 4096 * (cp div 4096 mod 16) + 256 * (cp div 256 mod 16) + 16 * (cp div 16 mod 16)
              + cp mod 16 = cp"
    using nibbles_of_value[of cp] by linarith
  then show "spec_value (spec_hex cp) = cp"
    unfolding s spec_value6 hex_char_mod .
qed

section \<open>Prefix bits\<close>

lemma lead_prefix:
  fixes b :: "8 word"
  assumes "unat b = 0xC0 + k" "k < 32"
  shows "drop_bit 5 b = 0b110"
proof -
  have "unat (drop_bit 5 b) = unat b div 2 ^ 5"
    by (simp add: drop_bit_eq_div unat_div)
  also have "\<dots> = 6" using assms by simp
  finally show ?thesis by (simp add: word_unat_eq_iff)
qed

lemma cont_prefix:
  fixes b :: "8 word"
  assumes "unat b = 0x80 + k" "k < 64"
  shows "drop_bit 6 b = 0b10"
proof -
  have "unat (drop_bit 6 b) = unat b div 2 ^ 6"
    by (simp add: drop_bit_eq_div unat_div)
  also have "\<dots> = 2" using assms by simp
  finally show ?thesis by (simp add: word_unat_eq_iff)
qed

section \<open>Where the encoder reads past the end of its input\<close>

lemma out_of_range_iff:
  "hexCodepointToUtf8String s = Inl OutOfRange \<longleftrightarrow>
     length s = 2 \<and> (\<forall>c\<in>set s. spec_is_hex c) \<and> 0x80 \<le> spec_value s"
proof
  assume oor: "hexCodepointToUtf8String s = Inl OutOfRange"
  then obtain cp where p: "hexCharToValue s = Some cp"
    by (cases "hexCharToValue s") (auto simp: enc_none)
  note d = hexCharToValue_SomeD[OF p]
  note pl = plane_of_value[OF p]
  show "length s = 2 \<and> (\<forall>c\<in>set s. spec_is_hex c) \<and> 0x80 \<le> spec_value s"
  proof (cases "utf8CodePointType cp")
    case Ascii
    then show ?thesis using oor p by (simp add: enc_ascii)
  next
    case Latin
    have v: "0x80 \<le> spec_value s" using Latin pl by (simp split: if_splits)
    show ?thesis
    proof (cases "4 \<le> length s")
      case True
      from enc_latin[OF p Latin True] show ?thesis using oor by auto
    next
      case False
      then have "length s = 2" using p by (intro short_is_two) auto
      then show ?thesis using d(4) v by simp
    qed
  next
    case MultiLingual
    then have "0xFF < spec_value s" using pl by (simp split: if_splits)
    then have "4 \<le> length s" by (rule digits_needed(1)[OF p])
    from enc_multilingual[OF p MultiLingual this] show ?thesis using oor by auto
  next
    case Extended
    then have "0xFFFF < spec_value s" using pl by (simp split: if_splits)
    then have "6 \<le> length s" by (rule digits_needed(2)[OF p])
    from enc_extended[OF p Extended this] show ?thesis using oor by auto
  next
    case Invalid
    then show ?thesis using oor p by (simp add: enc_invalid)
  qed
next
  assume a: "length s = 2 \<and> (\<forall>c\<in>set s. spec_is_hex c) \<and> 0x80 \<le> spec_value s"
  then have p: "hexCharToValue s = Some (of_nat (spec_value s))"
    by (intro valid_parse) auto
  have "spec_value s < 16 ^ length s" using a by (intro spec_value_bound) simp
  then have "spec_value s < 256" using a by simp
  then have t: "utf8CodePointType (of_nat (spec_value s)) = Latin"
    using a by (simp add: plane_of_value[OF p])
  show "hexCodepointToUtf8String s = Inl OutOfRange"
    using p t by (rule enc_latin_short) (use a in simp)
qed

section \<open>The parenthesis in the first byte of the Extended case\<close>

text \<open>
  The source writes \<^verbatim>\<open>char(P | ((c0 & 1) << 2)) | ((c1 & 12) >> 2)\<close> where the other
  cases write \<^verbatim>\<open>char(P | ... | ...)\<close>. Both narrow to the same byte: the bits that the
  inner conversion drops and the promotion fills in again are dropped by the outer
  conversion in any case.
\<close>

lemma parenthesis_harmless:
  "to_char (promote (to_char (promote Utf8ExtendedPrefix
                                 OR push_bit 2 (promote c0 AND 0b00000001)))
              OR drop_bit 2 (promote c1 AND 0b00001100))
   = to_char (promote Utf8ExtendedPrefix OR push_bit 2 (promote c0 AND 0b00000001)
                OR drop_bit 2 (promote c1 AND 0b00001100))"
  unfolding to_char_def promote_def
  by (rule bit_word_eqI) (auto simp: bit_simps)

section \<open>When the encoder returns the empty result\<close>

lemma invalid_iff_value:
  assumes "hexCharToValue s = Some cp"
  shows "utf8CodePointType cp = Invalid \<longleftrightarrow>
           0x10FFFF < spec_value s \<or> (0xD800 \<le> spec_value s \<and> spec_value s \<le> 0xDFFF)"
  unfolding plane_of_value[OF assms] by auto

lemma empty_iff_invalid:
  assumes "hexCharToValue s = Some cp"
  shows "hexCodepointToUtf8String s = Inr [] \<longleftrightarrow> utf8CodePointType cp = Invalid"
  using assms
  by (cases "utf8CodePointType cp")
    (simp_all add: hexCodepointToUtf8String_def at_index_def Let_def)

lemma invalid_iff_signed:
  "utf8CodePointType cp = Invalid \<longleftrightarrow>
     sint cp < 0 \<or> 0x10FFFF < sint cp \<or> (0xD800 \<le> sint cp \<and> sint cp \<le> 0xDFFF)"
  by (simp add: utf8CodePointType_def) arith

lemma failure_iff_value:
  "hexCodepointToUtf8String s = Inr [] \<longleftrightarrow>
     s = [] \<or> odd (length s) \<or> 8 < length s \<or> (\<exists>c\<in>set s. \<not> spec_is_hex c)
     \<or> 0x10FFFF < spec_value s \<or> (0xD800 \<le> spec_value s \<and> spec_value s \<le> 0xDFFF)"
proof (cases "hexCharToValue s")
  case None
  then have "s = [] \<or> odd (length s) \<or> 8 < length s \<or> (\<exists>c\<in>set s. \<not> spec_is_hex c)"
    by (simp add: hexCharToValue_char split: if_splits)
  then show ?thesis using enc_none[OF None] by blast
next
  case (Some cp)
  note d = hexCharToValue_SomeD[OF Some]
  have v: "\<not> (s = [] \<or> odd (length s) \<or> 8 < length s \<or> (\<exists>c\<in>set s. \<not> spec_is_hex c))"
    using d by auto
  show ?thesis
    unfolding empty_iff_invalid[OF Some] invalid_iff_value[OF Some] using v by simp
qed

lemma failure_iff_parsed:
  "hexCodepointToUtf8String s = Inr [] \<longleftrightarrow>
     s = [] \<or> odd (length s) \<or> 8 < length s \<or> (\<exists>c\<in>set s. \<not> spec_is_hex c)
     \<or> (\<exists>cp. hexCharToValue s = Some cp
            \<and> (sint cp < 0 \<or> 0x10FFFF < sint cp \<or> (0xD800 \<le> sint cp \<and> sint cp \<le> 0xDFFF)))"
proof (cases "hexCharToValue s")
  case None
  then have "s = [] \<or> odd (length s) \<or> 8 < length s \<or> (\<exists>c\<in>set s. \<not> spec_is_hex c)"
    by (simp add: hexCharToValue_char split: if_splits)
  then show ?thesis using None by (simp add: enc_none)
next
  case (Some cp)
  note d = hexCharToValue_SomeD[OF Some]
  have v: "\<not> (s = [] \<or> odd (length s) \<or> 8 < length s \<or> (\<exists>c\<in>set s. \<not> spec_is_hex c))"
    using d by auto
  show ?thesis
    unfolding empty_iff_invalid[OF Some] using v Some invalid_iff_signed[of cp] by simp
qed

section \<open>The claims\<close>

subsection \<open>The classifier\<close>

text \<open>
  C5. The code-point classifier is total on 32-bit integers and matches the decision
  table: \<open>[0, 0x7F]\<close> is Ascii, \<open>[0x80, 0x7FF]\<close> is Latin, \<open>[0x800, 0xD7FF]\<close> and
  \<open>[0xE000, 0xFFFF]\<close> are MultiLingual, \<open>[0x10000, 0x10FFFF]\<close> is Extended, and every
  other value (negative, a surrogate in \<open>[0xD800, 0xDFFF]\<close>, or above \<open>0x10FFFF\<close>) is
  Invalid.
\<close>

theorem classifier_decision_table:
  "utf8CodePointType cp =
     (if 0 \<le> sint cp \<and> sint cp \<le> 0x7F then Ascii
      else if 0x80 \<le> sint cp \<and> sint cp \<le> 0x7FF then Latin
      else if 0x800 \<le> sint cp \<and> sint cp \<le> 0xD7FF then MultiLingual
      else if 0xD800 \<le> sint cp \<and> sint cp \<le> 0xDFFF then Invalid
      else if 0xE000 \<le> sint cp \<and> sint cp \<le> 0xFFFF then MultiLingual
      else if 0x10000 \<le> sint cp \<and> sint cp \<le> 0x10FFFF then Extended
      else Invalid)
   \<and> (utf8CodePointType cp = Invalid
        \<longleftrightarrow> sint cp < 0 \<or> (0xD800 \<le> sint cp \<and> sint cp \<le> 0xDFFF) \<or> 0x10FFFF < sint cp)"
  by (simp add: utf8CodePointType_def) arith

subsection \<open>The parser\<close>

text \<open>
  C7, as amended. For every hex string of even, non-zero length of at most eight digits
  (the digit bound of the 32-bit holder) whose characters are all hex digits, the parser
  as the program instantiates it, at \<^verbatim>\<open>int32_t\<close>, returns the big-endian value, the sum
  of \<open>digit\<^sub>i * 16 ^ (n - 1 - i)\<close>, reduced into \<^verbatim>\<open>int32_t\<close>: the sum itself when it is
  below \<open>2 ^ 31\<close>, and the sum minus \<open>2 ^ 32\<close> otherwise. The 32 bits returned, read as
  unsigned, are the sum. An all-zero string of valid length parses to 0.
\<close>

theorem parser_int32_big_endian:
  assumes "s \<noteq> []" "even (length s)" "length s \<le> 8" "\<forall>c\<in>set s. spec_is_hex c"
  shows "\<exists>w. hexCharToValue s = Some w
           \<and> unat w = (\<Sum>i<length s. spec_digit_val (s ! i) * 16 ^ (length s - 1 - i))
           \<and> sint w =
               (if (\<Sum>i<length s. spec_digit_val (s ! i) * 16 ^ (length s - 1 - i)) < 2 ^ 31
                then int (\<Sum>i<length s. spec_digit_val (s ! i) * 16 ^ (length s - 1 - i))
                else int (\<Sum>i<length s. spec_digit_val (s ! i) * 16 ^ (length s - 1 - i)) - 2 ^ 32)
           \<and> ((\<forall>c\<in>set s. c = CHR ''0'') \<longrightarrow> w = 0)"
proof -
  have p: "hexCharToValue s = Some (of_nat (spec_value s))"
    using assms by (rule valid_parse)
  have u: "unat (of_nat (spec_value s) :: 32 word) = spec_value s"
    using assms(4,3) by (rule unat_value)
  have b: "spec_value s < 2 ^ 32"
    using assms(3,4) by (rule valid_value_bound)
  have z: "spec_value s = 0" if "\<forall>c\<in>set s. c = CHR ''0''"
  proof -
    have "spec_digit_val (s ! i) = 0" if "i < length s" for i
      using \<open>\<forall>c\<in>set s. c = CHR ''0''\<close> that
      by (simp add: spec_digit_val_def spec_digit_def spec_hex_digits_def)
    then show ?thesis by (simp add: spec_value_def)
  qed
  have g: "sint (of_nat (spec_value s) :: 32 word) =
      (if spec_value s < 2 ^ 31 then int (spec_value s) else int (spec_value s) - 2 ^ 32)"
  proof (cases "spec_value s < 2 ^ 31")
    case True
    then show ?thesis by (simp only: sint_value_small if_True)
  next
    case False
    then have "2 ^ 31 \<le> spec_value s" by simp
    then have "sint (of_nat (spec_value s) :: 32 word) = int (spec_value s) - 2 ^ 32"
      using b by (rule sint_value_large)
    then show ?thesis using False by (simp only: if_False)
  qed
  show ?thesis
    unfolding spec_value_def[symmetric]
  proof (intro exI conjI impI)
    show "hexCharToValue s = Some (of_nat (spec_value s))" by (rule p)
    show "unat (of_nat (spec_value s) :: 32 word) = spec_value s" by (rule u)
    show "sint (of_nat (spec_value s) :: 32 word) =
      (if spec_value s < 2 ^ 31 then int (spec_value s) else int (spec_value s) - 2 ^ 32)"
      by (rule g)
    show "(of_nat (spec_value s) :: 32 word) = 0" if "\<forall>c\<in>set s. c = CHR ''0''"
      using z[OF that] by simp
  qed
qed

theorem parser_int32_big_endian_witness:
  "(\<exists>w. hexCharToValue ''00E9'' = Some w \<and> unat w = 233 \<and> sint w = 233)
   \<and> (\<exists>w. hexCharToValue ''80000000'' = Some w \<and> unat w = 2147483648
          \<and> sint w = - 2147483648)
   \<and> hexCharToValue ''0000'' = Some 0"
proof -
  have h: "\<forall>c\<in>set ''00E9''. spec_is_hex c"
    by (simp add: spec_defs)
  have v: "(\<Sum>i<length ''00E9''. spec_digit_val (''00E9'' ! i) * 16 ^ (length ''00E9'' - 1 - i)) = 233"
    unfolding spec_value_def[symmetric]
    by (simp add: spec_value4 spec_defs)
  have "''00E9'' \<noteq> []" "even (length ''00E9'')" "length ''00E9'' \<le> 8" by simp_all
  from parser_int32_big_endian[OF this h]
  have 1: "\<exists>w. hexCharToValue ''00E9'' = Some w \<and> unat w = 233 \<and> sint w = 233"
    unfolding v by auto
  have h8: "\<forall>c\<in>set ''80000000''. spec_is_hex c"
    by (simp add: spec_defs)
  have v8: "(\<Sum>i<length ''80000000''.
        spec_digit_val (''80000000'' ! i) * 16 ^ (length ''80000000'' - 1 - i)) = 2147483648"
    unfolding spec_value_def[symmetric]
    by (simp add: spec_value_Cons spec_value_Nil spec_defs)
  have "''80000000'' \<noteq> []" "even (length ''80000000'')" "length ''80000000'' \<le> 8"
    by simp_all
  from parser_int32_big_endian[OF this h8]
  have 2: "\<exists>w. hexCharToValue ''80000000'' = Some w \<and> unat w = 2147483648
          \<and> sint w = - 2147483648"
    unfolding v8 by auto
  have h0: "\<forall>c\<in>set ''0000''. spec_is_hex c"
    by (simp add: spec_defs)
  have "''0000'' \<noteq> []" "even (length ''0000'')" "length ''0000'' \<le> 8" by simp_all
  from parser_int32_big_endian[OF this h0]
  have 3: "hexCharToValue ''0000'' = Some 0" by auto
  show ?thesis using 1 2 3 by simp
qed

text \<open>
  C7 as stated, with the big-endian value returned for every valid string, fails for the
  parser the program has: \<^verbatim>\<open>hexCharToValue<int32_t>("FFFFFFFF")\<close> returns \<open>-1\<close>, and the
  sum of the digits is \<open>4294967295\<close>.
\<close>

theorem parser_signed_counterexample:
  "map_option sint (hexCharToValue ''FFFFFFFF'') = Some (- 1)
   \<and> spec_value ''FFFFFFFF'' = 4294967295"
proof -
  have v: "spec_value ''FFFFFFFF'' = 4294967295"
    by (simp add: spec_value_Cons spec_value_Nil spec_defs)
  have "\<forall>c\<in>set ''FFFFFFFF''. spec_is_hex c" by (simp add: spec_defs)
  then have p: "hexCharToValue ''FFFFFFFF'' = Some (of_nat (spec_value ''FFFFFFFF''))"
    by (intro valid_parse) simp_all
  have "sint (of_nat (spec_value ''FFFFFFFF'') :: 32 word) = int (spec_value ''FFFFFFFF'') - 2 ^ 32"
    unfolding v by (rule sint_value_large) simp_all
  then have "sint (of_nat (spec_value ''FFFFFFFF'') :: 32 word) = - 1"
    unfolding v by simp
  then show ?thesis using p v by simp
qed

text \<open>
  C10. The encoder parses into a signed 32-bit holder: an eight-digit hex string whose
  leading digit is 8 or more parses to a negative value, the unsigned value minus
  \<open>2 ^ 32\<close>; the classifier maps it to Invalid and the encoder returns the empty result.
\<close>

theorem signed_holder_rejects_high_digit:
  assumes "length s = 8" "\<forall>c\<in>set s. spec_is_hex c" "8 \<le> spec_digit_val (s ! 0)"
  shows "\<exists>w. hexCharToValue s = Some w
           \<and> sint w < 0
           \<and> sint w = int (spec_value s) - 2 ^ 32
           \<and> utf8CodePointType w = Invalid
           \<and> hexCodepointToUtf8String s = Inr []"
proof -
  have p: "hexCharToValue s = Some (of_nat (spec_value s))"
    using assms(1,2) by (intro valid_parse) auto
  obtain c cs where s: "s = c # cs" and l: "length cs = 7"
    using assms(1) by (cases s) auto
  have hi: "spec_value s < 2 ^ 32"
    using assms(1,2) by (intro valid_value_bound) auto
  have "8 * 16 ^ 7 \<le> spec_digit_val c * 16 ^ length cs"
    using assms(3) unfolding s l by simp
  then have lo: "2 ^ 31 \<le> spec_value s"
    unfolding s spec_value_Cons by simp
  have sv: "sint (of_nat (spec_value s) :: 32 word) = int (spec_value s) - 2 ^ 32"
    using lo hi by (rule sint_value_large)
  have inv: "utf8CodePointType (of_nat (spec_value s)) = Invalid"
    using lo hi by (rule classify_value_large)
  have "hexCodepointToUtf8String s = Inr []"
    using p inv by (rule enc_invalid)
  moreover have "sint (of_nat (spec_value s) :: 32 word) < 0"
    using sv hi by simp
  ultimately show ?thesis using p sv inv by blast
qed

theorem signed_holder_rejects_high_digit_witness:
  "\<exists>w. hexCharToValue ''FFFFFFFF'' = Some w \<and> sint w = - 1
       \<and> hexCodepointToUtf8String ''FFFFFFFF'' = Inr []"
proof -
  have h: "\<forall>c\<in>set ''FFFFFFFF''. spec_is_hex c"
    by (simp add: spec_is_hex_def spec_digit_def spec_hex_digits_def)
  have d: "8 \<le> spec_digit_val (''FFFFFFFF'' ! 0)"
    by (simp add: spec_digit_val_def spec_digit_def spec_hex_digits_def)
  have l: "length ''FFFFFFFF'' = 8" by simp
  have v: "spec_value ''FFFFFFFF'' = 4294967295"
    by (simp add: spec_value_Cons spec_value_Nil spec_digit_val_def spec_digit_def spec_hex_digits_def)
  from signed_holder_rejects_high_digit[OF l h d] show ?thesis
    unfolding v by auto
qed

subsection \<open>The encoder\<close>

text \<open>
  C8. For every valid four-digit hex string whose code point is in \<open>[0x0000, 0x007F]\<close>
  the encoder returns exactly one byte, whose value is the code point;
  \<^verbatim>\<open>"0000"\<close> gives the byte \<open>0x00\<close> and \<^verbatim>\<open>"007F"\<close> the byte \<open>0x7F\<close>.
\<close>

theorem ascii_single_byte:
  "(\<forall>s. length s = 4 \<and> (\<forall>c\<in>set s. spec_is_hex c) \<and> spec_value s \<le> 0x7F
        \<longrightarrow> (\<exists>b. hexCodepointToUtf8String s = Inr [b] \<and> unat b = spec_value s))
   \<and> hexCodepointToUtf8String ''0000'' = Inr [0x00]
   \<and> hexCodepointToUtf8String ''007F'' = Inr [0x7F]"
proof (intro conjI allI impI)
  fix s
  assume a: "length s = 4 \<and> (\<forall>c\<in>set s. spec_is_hex c) \<and> spec_value s \<le> 0x7F"
  then have p: "hexCharToValue s = Some (of_nat (spec_value s))"
    by (intro valid_parse) auto
  have "utf8CodePointType (of_nat (spec_value s)) = Ascii"
    using a by (simp add: plane_of_value[OF p])
  with p have "hexCodepointToUtf8String s = Inr [to_char (of_nat (spec_value s))]"
    by (rule enc_ascii)
  moreover have "unat (to_char (of_nat (spec_value s))) = spec_value s"
    using a by (intro to_char_small) simp
  ultimately show "\<exists>b. hexCodepointToUtf8String s = Inr [b] \<and> unat b = spec_value s"
    by blast
next
  show "hexCodepointToUtf8String ''0000'' = Inr [0x00]"
    by (simp add: eval_defs)
next
  show "hexCodepointToUtf8String ''007F'' = Inr [0x7F]"
    by (simp add: eval_defs)
qed

theorem ascii_single_byte_witness:
  "\<exists>b. hexCodepointToUtf8String ''0041'' = Inr [b] \<and> unat b = 0x41"
proof -
  have h: "length ''0041'' = 4 \<and> (\<forall>c\<in>set ''0041''. spec_is_hex c) \<and> spec_value ''0041'' \<le> 0x7F"
    by (simp add: spec_defs spec_value4)
  have v: "spec_value ''0041'' = 0x41"
    by (simp add: spec_defs spec_value4)
  from ascii_single_byte[THEN conjunct1, rule_format, OF h] show ?thesis
    unfolding v .
qed

text \<open>
  C6. The encoder returns the empty result exactly when the input is empty or of odd
  length, or longer than the eight digits of the holder, or has a character that is not a
  hex digit, or has a value, the big-endian sum of its digits, above \<open>0x10FFFF\<close> or inside
  the surrogate range (first conjunct). In terms of the code point as the encoder parses
  it, into a signed holder, the last condition is a parsed code point outside
  \<open>[0, 0x10FFFF]\<close> or inside the surrogate range (second conjunct). The empty string,
  \<^verbatim>\<open>"1"\<close>, \<^verbatim>\<open>"GG"\<close> and every nine-digit string fail, as do \<^verbatim>\<open>"D800"\<close>, \<^verbatim>\<open>"110000"\<close> and
  \<^verbatim>\<open>"FFFFFFFF"\<close>, and the failure result holds no byte.
\<close>

theorem encode_failure_iff:
  "(\<forall>s. hexCodepointToUtf8String s = Inr [] \<longleftrightarrow>
          s = [] \<or> odd (length s) \<or> 8 < length s \<or> (\<exists>c\<in>set s. \<not> spec_is_hex c)
          \<or> 0x10FFFF < spec_value s \<or> (0xD800 \<le> spec_value s \<and> spec_value s \<le> 0xDFFF))
   \<and> (\<forall>s. hexCodepointToUtf8String s = Inr [] \<longleftrightarrow>
          s = [] \<or> odd (length s) \<or> 8 < length s \<or> (\<exists>c\<in>set s. \<not> spec_is_hex c)
          \<or> (\<exists>cp. hexCharToValue s = Some cp
                 \<and> (sint cp < 0 \<or> 0x10FFFF < sint cp \<or> (0xD800 \<le> sint cp \<and> sint cp \<le> 0xDFFF))))
   \<and> hexCodepointToUtf8String [] = Inr []
   \<and> hexCodepointToUtf8String ''1'' = Inr []
   \<and> hexCodepointToUtf8String ''GG'' = Inr []
   \<and> (\<forall>s. length s = 9 \<longrightarrow> hexCodepointToUtf8String s = Inr [])
   \<and> hexCodepointToUtf8String ''D800'' = Inr []
   \<and> hexCodepointToUtf8String ''110000'' = Inr []
   \<and> hexCodepointToUtf8String ''FFFFFFFF'' = Inr []"
proof (intro conjI allI impI)
  fix s
  show "hexCodepointToUtf8String s = Inr [] \<longleftrightarrow>
          s = [] \<or> odd (length s) \<or> 8 < length s \<or> (\<exists>c\<in>set s. \<not> spec_is_hex c)
          \<or> 0x10FFFF < spec_value s \<or> (0xD800 \<le> spec_value s \<and> spec_value s \<le> 0xDFFF)"
    by (rule failure_iff_value)
next
  fix s
  show "hexCodepointToUtf8String s = Inr [] \<longleftrightarrow>
          s = [] \<or> odd (length s) \<or> 8 < length s \<or> (\<exists>c\<in>set s. \<not> spec_is_hex c)
          \<or> (\<exists>cp. hexCharToValue s = Some cp
                 \<and> (sint cp < 0 \<or> 0x10FFFF < sint cp \<or> (0xD800 \<le> sint cp \<and> sint cp \<le> 0xDFFF)))"
    by (rule failure_iff_parsed)
next
  show "hexCodepointToUtf8String [] = Inr []" by (simp add: eval_defs)
next
  show "hexCodepointToUtf8String ''1'' = Inr []" by (simp add: eval_defs)
next
  show "hexCodepointToUtf8String ''GG'' = Inr []"
    by (simp add: enc_none hexCharToValue_char spec_defs)
next
  fix s :: string
  assume "length s = 9"
  then have "hexCharToValue s = None" by (simp add: hexCharToValue_def)
  then show "hexCodepointToUtf8String s = Inr []" by (rule enc_none)
next
  show "hexCodepointToUtf8String ''D800'' = Inr []" by (simp add: eval_defs)
next
  show "hexCodepointToUtf8String ''110000'' = Inr []" by (simp add: eval_defs)
next
  show "hexCodepointToUtf8String ''FFFFFFFF'' = Inr []" by (simp add: eval_defs)
qed

theorem encode_failure_iff_witness:
  "hexCodepointToUtf8String ''00zz'' = Inr []
   \<and> hexCodepointToUtf8String ''123456789'' = Inr []
   \<and> hexCodepointToUtf8String ''DABC'' = Inr []
   \<and> hexCodepointToUtf8String ''12345678'' = Inr []
   \<and> hexCodepointToUtf8String ''0041'' \<noteq> Inr []
   \<and> hexCodepointToUtf8String ''10FFFF'' \<noteq> Inr []"
proof -
  note g = encode_failure_iff[THEN conjunct1, rule_format]
  have "\<exists>c\<in>set ''00zz''. \<not> spec_is_hex c"
    by (simp add: spec_defs)
  then have 1: "hexCodepointToUtf8String ''00zz'' = Inr []"
    using g[of "''00zz''"] by blast
  have "length ''123456789'' = 9" by simp
  then have 2: "hexCodepointToUtf8String ''123456789'' = Inr []"
    using encode_failure_iff by blast
  have "0xD800 \<le> spec_value ''DABC'' \<and> spec_value ''DABC'' \<le> 0xDFFF"
    by (simp add: spec_defs spec_value4)
  then have 3: "hexCodepointToUtf8String ''DABC'' = Inr []"
    using g[of "''DABC''"] by blast
  have "0x10FFFF < spec_value ''12345678''"
    by (simp add: spec_defs spec_value_Cons spec_value_Nil)
  then have 4: "hexCodepointToUtf8String ''12345678'' = Inr []"
    using g[of "''12345678''"] by blast
  have "\<not> (''0041'' = [] \<or> odd (length ''0041'') \<or> 8 < length ''0041''
            \<or> (\<exists>c\<in>set ''0041''. \<not> spec_is_hex c)
            \<or> 0x10FFFF < spec_value ''0041''
            \<or> (0xD800 \<le> spec_value ''0041'' \<and> spec_value ''0041'' \<le> 0xDFFF))"
    by (simp add: spec_defs spec_value4)
  then have 5: "hexCodepointToUtf8String ''0041'' \<noteq> Inr []"
    using g[of "''0041''"] by blast
  have "\<not> (''10FFFF'' = [] \<or> odd (length ''10FFFF'') \<or> 8 < length ''10FFFF''
            \<or> (\<exists>c\<in>set ''10FFFF''. \<not> spec_is_hex c)
            \<or> 0x10FFFF < spec_value ''10FFFF''
            \<or> (0xD800 \<le> spec_value ''10FFFF'' \<and> spec_value ''10FFFF'' \<le> 0xDFFF))"
    by (simp add: spec_defs spec_value6)
  then have 6: "hexCodepointToUtf8String ''10FFFF'' \<noteq> Inr []"
    using g[of "''10FFFF''"] by blast
  show ?thesis using 1 2 3 4 5 6 by simp
qed

text \<open>
  C3. Round trip: for every code point \<open>cp\<close> in \<open>[0, 0x10FFFF]\<close> outside the surrogate range
  \<open>[0xD800, 0xDFFF]\<close>, encoding the hex-string representation of \<open>cp\<close> (four digits up to
  \<open>0xFFFF\<close>, six digits above) and decoding the bytes with the reference UTF-8 decoder
  gives \<open>cp\<close> again. The same holds for every string of that many hex digits, in either
  letter case, whose value is \<open>cp\<close>.
\<close>

theorem round_trip:
  assumes "cp \<le> 0x10FFFF" "cp < 0xD800 \<or> 0xDFFF < cp"
  shows "(\<exists>bs. hexCodepointToUtf8String (spec_hex cp) = Inr bs \<and> reference_decode bs = Some cp)
       \<and> (\<forall>s. length s = (if cp < 0x10000 then 4 else 6) \<and> (\<forall>c\<in>set s. spec_is_hex c)
               \<and> spec_value s = cp
             \<longrightarrow> (\<exists>bs. hexCodepointToUtf8String s = Inr bs \<and> reference_decode bs = Some cp))"
proof (cases "cp < 0x10000")
  case True
  note h = spec_hex4[OF True]
  have "\<exists>bs. hexCodepointToUtf8String (spec_hex cp) = Inr bs \<and> reference_decode bs = Some cp"
    using roundtrip4[OF h(1,2)] assms(2) unfolding h(3) by blast
  moreover have "\<exists>bs. hexCodepointToUtf8String s = Inr bs \<and> reference_decode bs = Some cp"
    if "length s = 4" "\<forall>c\<in>set s. spec_is_hex c" "spec_value s = cp" for s
    using roundtrip4[OF that(1,2)] assms(2) unfolding that(3) by blast
  ultimately show ?thesis using True by simp
next
  case False
  then have lo: "0x10000 \<le> cp" by simp
  note h = spec_hex6[OF lo assms(1)]
  have "\<exists>bs. hexCodepointToUtf8String (spec_hex cp) = Inr bs \<and> reference_decode bs = Some cp"
    using roundtrip6[OF h(1,2)] lo assms(1) unfolding h(3) by blast
  moreover have "\<exists>bs. hexCodepointToUtf8String s = Inr bs \<and> reference_decode bs = Some cp"
    if "length s = 6" "\<forall>c\<in>set s. spec_is_hex c" "spec_value s = cp" for s
    using roundtrip6[OF that(1,2)] lo assms(1) unfolding that(3) by blast
  ultimately show ?thesis using False by simp
qed

theorem round_trip_witness:
  "(\<exists>bs. hexCodepointToUtf8String ''20AC'' = Inr bs \<and> reference_decode bs = Some 0x20AC)
   \<and> (\<exists>bs. hexCodepointToUtf8String ''20ac'' = Inr bs \<and> reference_decode bs = Some 0x20AC)"
proof -
  have a: "(0x20AC :: nat) \<le> 0x10FFFF" "(0x20AC :: nat) < 0xD800 \<or> 0xDFFF < (0x20AC :: nat)"
    by simp_all
  have 1: "\<exists>bs. hexCodepointToUtf8String ''20AC'' = Inr bs \<and> reference_decode bs = Some 0x20AC"
    using round_trip[OF a, THEN conjunct1] by (simp add: spec_hex_def spec_hex_char_def)
  have "length ''20ac'' = (if (0x20AC :: nat) < 0x10000 then 4 else 6)
        \<and> (\<forall>c\<in>set ''20ac''. spec_is_hex c) \<and> spec_value ''20ac'' = 0x20AC"
    by (simp add: spec_defs spec_value4)
  then have 2: "\<exists>bs. hexCodepointToUtf8String ''20ac'' = Inr bs \<and> reference_decode bs = Some 0x20AC"
    using round_trip[OF a, THEN conjunct2, rule_format] by blast
  show ?thesis using 1 2 by simp
qed

text \<open>
  C1. For every six-digit hex string whose code point is in the Extended plane
  \<open>[0x10000, 0x10FFFF]\<close> the encoder returns exactly four bytes packed as the UTF-8 table
  says, \<open>11110uvv\<close>, \<open>10vvwwww\<close>, \<open>10xxxxyy\<close>, \<open>10yyzzzz\<close>, where \<open>u\<close> to \<open>z\<close> are the six
  input nibbles in order (\<open>u\<close> is 0 or 1); \<^verbatim>\<open>"010000"\<close> gives \<open>F0 90 80 80\<close> and \<^verbatim>\<open>"10FFFF"\<close>
  gives \<open>F4 8F BF BF\<close>. The misplaced parenthesis in the first byte of the Extended case
  moves the last \<^verbatim>\<open>|\<close> outside the conversion to \<^verbatim>\<open>char\<close>; the byte produced is the
  same as with the parenthesis where the other cases have it, for all operands (last
  conjunct).
\<close>

theorem extended_four_bytes:
  "(\<forall>s. length s = 6 \<and> (\<forall>c\<in>set s. spec_is_hex c)
         \<and> 0x10000 \<le> spec_value s \<and> spec_value s \<le> 0x10FFFF
        \<longrightarrow> (\<exists>b1 b2 b3 b4. hexCodepointToUtf8String s = Inr [b1, b2, b3, b4]
               \<and> unat b1 = 0xF0 + 4 * spec_digit_val (s ! 0) + spec_digit_val (s ! 1) div 4
               \<and> unat b2 = 0x80 + 16 * (spec_digit_val (s ! 1) mod 4) + spec_digit_val (s ! 2)
               \<and> unat b3 = 0x80 + 4 * spec_digit_val (s ! 3) + spec_digit_val (s ! 4) div 4
               \<and> unat b4 = 0x80 + 16 * (spec_digit_val (s ! 4) mod 4) + spec_digit_val (s ! 5)
               \<and> spec_digit_val (s ! 0) \<le> 1))
   \<and> hexCodepointToUtf8String ''010000'' = Inr [0xF0, 0x90, 0x80, 0x80]
   \<and> hexCodepointToUtf8String ''10FFFF'' = Inr [0xF4, 0x8F, 0xBF, 0xBF]
   \<and> (\<forall>c0 c1.
         to_char (promote (to_char (promote Utf8ExtendedPrefix
                                      OR push_bit 2 (promote c0 AND 0b00000001)))
                    OR drop_bit 2 (promote c1 AND 0b00001100))
         = to_char (promote Utf8ExtendedPrefix OR push_bit 2 (promote c0 AND 0b00000001)
                      OR drop_bit 2 (promote c1 AND 0b00001100)))"
proof (intro conjI allI impI)
  fix c0 c1
  show "to_char (promote (to_char (promote Utf8ExtendedPrefix
                                      OR push_bit 2 (promote c0 AND 0b00000001)))
                    OR drop_bit 2 (promote c1 AND 0b00001100))
         = to_char (promote Utf8ExtendedPrefix OR push_bit 2 (promote c0 AND 0b00000001)
                      OR drop_bit 2 (promote c1 AND 0b00001100))"
    by (rule parenthesis_harmless)
next
  fix s
  assume a: "length s = 6 \<and> (\<forall>c\<in>set s. spec_is_hex c)
         \<and> 0x10000 \<le> spec_value s \<and> spec_value s \<le> 0x10FFFF"
  then have l: "length s = 6" and h: "\<forall>c\<in>set s. spec_is_hex c"
    and lo: "0x10000 \<le> spec_value s" and hi: "spec_value s \<le> 0x10FFFF" by simp_all
  obtain h0 h1 h2 h3 h4 h5 where s: "s = [h0, h1, h2, h3, h4, h5]"
    using l by (rule six_digits)
  have "spec_digit_val (s ! 0) \<le> 1"
    using hi unfolding s spec_value6 by simp
  then show "\<exists>b1 b2 b3 b4. hexCodepointToUtf8String s = Inr [b1, b2, b3, b4]
               \<and> unat b1 = 0xF0 + 4 * spec_digit_val (s ! 0) + spec_digit_val (s ! 1) div 4
               \<and> unat b2 = 0x80 + 16 * (spec_digit_val (s ! 1) mod 4) + spec_digit_val (s ! 2)
               \<and> unat b3 = 0x80 + 4 * spec_digit_val (s ! 3) + spec_digit_val (s ! 4) div 4
               \<and> unat b4 = 0x80 + 16 * (spec_digit_val (s ! 4) mod 4) + spec_digit_val (s ! 5)
               \<and> spec_digit_val (s ! 0) \<le> 1"
    using enc6_extended_std[OF l h lo hi] by blast
next
  show "hexCodepointToUtf8String ''010000'' = Inr [0xF0, 0x90, 0x80, 0x80]"
    by (simp add: eval_defs)
next
  show "hexCodepointToUtf8String ''10FFFF'' = Inr [0xF4, 0x8F, 0xBF, 0xBF]"
    by (simp add: eval_defs)
qed

theorem extended_four_bytes_witness:
  "\<exists>b1 b2 b3 b4. hexCodepointToUtf8String ''01F600'' = Inr [b1, b2, b3, b4]
     \<and> unat b1 = 0xF0 \<and> unat b2 = 0x9F \<and> unat b3 = 0x98 \<and> unat b4 = 0x80"
proof -
  have "length ''01F600'' = 6 \<and> (\<forall>c\<in>set ''01F600''. spec_is_hex c)
         \<and> 0x10000 \<le> spec_value ''01F600'' \<and> spec_value ''01F600'' \<le> 0x10FFFF"
    by (simp add: spec_defs spec_value6)
  from extended_four_bytes[THEN conjunct1, rule_format, OF this] show ?thesis
    by (simp add: spec_defs)
qed

text \<open>
  C2, as amended. For every valid four-digit hex string whose code point is in
  \<open>[0x0080, 0x07FF]\<close> the encoder returns exactly two bytes, the first with the lead
  prefix \<open>110\<close> and the second with the continuation prefix \<open>10\<close>, and the reference
  decoder recovers the code point from them.
\<close>

theorem latin_two_bytes_four_digits:
  assumes "length s = 4" "\<forall>c\<in>set s. spec_is_hex c"
    "0x80 \<le> spec_value s" "spec_value s \<le> 0x7FF"
  shows "\<exists>b1 b2. hexCodepointToUtf8String s = Inr [b1, b2]
           \<and> drop_bit 5 b1 = 0b110 \<and> drop_bit 6 b2 = 0b10
           \<and> reference_decode [b1, b2] = Some (spec_value s)"
proof -
  obtain b1 b2 where b: "hexCodepointToUtf8String s = Inr [b1, b2]"
    "unat b1 = 0xC0 + spec_value s div 64" "unat b2 = 0x80 + spec_value s mod 64"
    using enc4_latin_std[OF assms] by blast
  have "spec_value s div 64 < 32" using assms(4) by simp
  with b(2) have 1: "drop_bit 5 b1 = 0b110" by (rule lead_prefix)
  have "spec_value s mod 64 < 64" by simp
  with b(3) have 2: "drop_bit 6 b2 = 0b10" by (rule cont_prefix)
  have "reference_decode [b1, b2] = Some (spec_value s)"
    using b(2,3) assms(3,4) by (simp only: reference_decode_def list.map decode_std2)
  then show ?thesis using b(1) 1 2 by blast
qed

theorem latin_two_bytes_four_digits_witness:
  "\<exists>b1 b2. hexCodepointToUtf8String ''00E9'' = Inr [b1, b2]
           \<and> drop_bit 5 b1 = 0b110 \<and> drop_bit 6 b2 = 0b10
           \<and> reference_decode [b1, b2] = Some 0xE9"
proof -
  have h: "\<forall>c\<in>set ''00E9''. spec_is_hex c" by (simp add: spec_defs)
  have v: "spec_value ''00E9'' = 0xE9" by (simp add: spec_defs spec_value4)
  have l: "length ''00E9'' = 4" by simp
  have "0x80 \<le> spec_value ''00E9''" "spec_value ''00E9'' \<le> 0x7FF" unfolding v by simp_all
  from latin_two_bytes_four_digits[OF l h this] show ?thesis unfolding v .
qed

text \<open>
  C2 as stated, for every accepted hex string, fails. The Latin case reads the digits
  at positions 1, 2 and 3 whatever the length of the string: \<^verbatim>\<open>"000080"\<close> is accepted,
  parses to \<open>0x80\<close> and encodes to \<open>C0 80\<close>, whose payload bits are all zero and which the
  reference decoder rejects as overlong; the two-digit \<^verbatim>\<open>"80"\<close> parses to \<open>0x80\<close> as well
  and the encoder reads past its end.
\<close>

theorem latin_other_lengths_counterexample:
  "hexCharToValue ''000080'' = Some 0x80
   \<and> hexCodepointToUtf8String ''000080'' = Inr [0xC0, 0x80]
   \<and> reference_decode [0xC0, 0x80] = None
   \<and> hexCharToValue ''80'' = Some 0x80
   \<and> hexCodepointToUtf8String ''80'' = Inl OutOfRange"
  by (simp add: eval_defs reference_decode_def is_continuation_def)

text \<open>
  C4. At the surrogate boundary of the MultiLingual plane: \<^verbatim>\<open>"D7FF"\<close> and \<^verbatim>\<open>"E000"\<close>
  encode to three bytes, \<^verbatim>\<open>"D800"\<close> and \<^verbatim>\<open>"DFFF"\<close> give the empty failure result; among
  the four-digit strings from \<open>0x0800\<close> up the encoder fails on exactly the surrogate code
  points and returns three bytes on all the others.
\<close>

theorem surrogate_boundary:
  "hexCodepointToUtf8String ''D7FF'' = Inr [0xED, 0x9F, 0xBF]
   \<and> hexCodepointToUtf8String ''E000'' = Inr [0xEE, 0x80, 0x80]
   \<and> hexCodepointToUtf8String ''D800'' = Inr []
   \<and> hexCodepointToUtf8String ''DFFF'' = Inr []
   \<and> (\<forall>s. length s = 4 \<and> (\<forall>c\<in>set s. spec_is_hex c) \<and> 0x800 \<le> spec_value s
          \<longrightarrow> (if 0xD800 \<le> spec_value s \<and> spec_value s \<le> 0xDFFF
               then hexCodepointToUtf8String s = Inr []
               else \<exists>b1 b2 b3. hexCodepointToUtf8String s = Inr [b1, b2, b3]))"
proof (intro conjI allI impI)
  show "hexCodepointToUtf8String ''D7FF'' = Inr [0xED, 0x9F, 0xBF]"
    by (simp add: eval_defs)
next
  show "hexCodepointToUtf8String ''E000'' = Inr [0xEE, 0x80, 0x80]"
    by (simp add: eval_defs)
next
  show "hexCodepointToUtf8String ''D800'' = Inr []"
    by (simp add: eval_defs)
next
  show "hexCodepointToUtf8String ''DFFF'' = Inr []"
    by (simp add: eval_defs)
next
  fix s
  assume a: "length s = 4 \<and> (\<forall>c\<in>set s. spec_is_hex c) \<and> 0x800 \<le> spec_value s"
  then have l: "length s = 4" and h: "\<forall>c\<in>set s. spec_is_hex c"
    and lo: "0x800 \<le> spec_value s" by simp_all
  show "if 0xD800 \<le> spec_value s \<and> spec_value s \<le> 0xDFFF
        then hexCodepointToUtf8String s = Inr []
        else \<exists>b1 b2 b3. hexCodepointToUtf8String s = Inr [b1, b2, b3]"
  proof (cases "0xD800 \<le> spec_value s \<and> spec_value s \<le> 0xDFFF")
    case True
    have p: "hexCharToValue s = Some (of_nat (spec_value s))"
      using l h by (intro valid_parse) auto
    have "utf8CodePointType (of_nat (spec_value s)) = Invalid"
      using True by (simp add: plane_of_value[OF p])
    with p have "hexCodepointToUtf8String s = Inr []" by (rule enc_invalid)
    then show ?thesis using True by simp
  next
    case False
    then have "spec_value s < 0xD800 \<or> 0xDFFF < spec_value s" by linarith
    from enc4_multilingual_std[OF l h lo this] show ?thesis using False by auto
  qed
qed

theorem surrogate_boundary_witness:
  "hexCodepointToUtf8String ''DABC'' = Inr []
   \<and> (\<exists>b1 b2 b3. hexCodepointToUtf8String ''FFFD'' = Inr [b1, b2, b3])"
proof -
  have 1: "length ''DABC'' = 4 \<and> (\<forall>c\<in>set ''DABC''. spec_is_hex c) \<and> 0x800 \<le> spec_value ''DABC''"
    by (simp add: spec_defs spec_value4)
  have 2: "length ''FFFD'' = 4 \<and> (\<forall>c\<in>set ''FFFD''. spec_is_hex c) \<and> 0x800 \<le> spec_value ''FFFD''"
    by (simp add: spec_defs spec_value4)
  note g = surrogate_boundary[THEN conjunct2, THEN conjunct2, THEN conjunct2, THEN conjunct2,
      rule_format]
  have "hexCodepointToUtf8String ''DABC'' = Inr []"
    using g[OF 1] by (simp add: spec_defs spec_value4)
  moreover have "\<exists>b1 b2 b3. hexCodepointToUtf8String ''FFFD'' = Inr [b1, b2, b3]"
    using g[OF 2] by (simp add: spec_defs spec_value4)
  ultimately show ?thesis by simp
qed

text \<open>
  C9. For some accepted inputs the encoder reads positions of the hex string past its
  end: the two-digit \<^verbatim>\<open>"80"\<close> parses to \<open>0x80\<close>, is classified Latin, and the Latin case
  reads positions 1, 2 and 3. The out-of-range read happens exactly on the valid two-digit
  strings from \<open>0x80\<close> up. It cannot happen when the caller keeps the precondition the
  encoder does not check: four digits for a code point of the first three planes, six
  digits for the Extended plane.
\<close>

theorem out_of_range_read_reachable:
  "hexCharToValue ''80'' = Some 0x80
   \<and> utf8CodePointType 0x80 = Latin
   \<and> hexCodepointToUtf8String ''80'' = Inl OutOfRange
   \<and> (\<forall>s. hexCodepointToUtf8String s = Inl OutOfRange \<longleftrightarrow>
            length s = 2 \<and> (\<forall>c\<in>set s. spec_is_hex c) \<and> 0x80 \<le> spec_value s)
   \<and> (\<forall>s cp. hexCharToValue s = Some cp
            \<and> (utf8CodePointType cp \<in> {Ascii, Latin, MultiLingual} \<longrightarrow> length s = 4)
            \<and> (utf8CodePointType cp = Extended \<longrightarrow> length s = 6)
          \<longrightarrow> (\<exists>bs. hexCodepointToUtf8String s = Inr bs))"
proof (intro conjI allI impI)
  show "hexCharToValue ''80'' = Some 0x80" by (simp add: eval_defs)
next
  show "utf8CodePointType 0x80 = Latin" by (simp add: utf8CodePointType_def)
next
  show "hexCodepointToUtf8String ''80'' = Inl OutOfRange" by (simp add: eval_defs)
next
  fix s
  show "hexCodepointToUtf8String s = Inl OutOfRange \<longleftrightarrow>
            length s = 2 \<and> (\<forall>c\<in>set s. spec_is_hex c) \<and> 0x80 \<le> spec_value s"
    by (rule out_of_range_iff)
next
  fix s cp
  assume a: "hexCharToValue s = Some cp
            \<and> (utf8CodePointType cp \<in> {Ascii, Latin, MultiLingual} \<longrightarrow> length s = 4)
            \<and> (utf8CodePointType cp = Extended \<longrightarrow> length s = 6)"
  then have p: "hexCharToValue s = Some cp" by simp
  have "length s \<noteq> 2"
  proof
    assume l: "length s = 2"
    have "spec_value s < 16 ^ length s"
      using hexCharToValue_SomeD(4)[OF p] by (rule spec_value_bound)
    then have "spec_value s < 256" using l by simp
    then have "utf8CodePointType cp \<in> {Ascii, Latin}"
      using plane_of_value[OF p] by simp
    then show False using a l by auto
  qed
  then have "hexCodepointToUtf8String s \<noteq> Inl OutOfRange"
    by (simp add: out_of_range_iff)
  then show "\<exists>bs. hexCodepointToUtf8String s = Inr bs"
    by (cases "hexCodepointToUtf8String s") (auto intro: error.exhaust)
qed

theorem out_of_range_read_reachable_witness:
  "hexCodepointToUtf8String ''FF'' = Inl OutOfRange
   \<and> (\<exists>bs. hexCodepointToUtf8String ''00FF'' = Inr bs)"
proof -
  note g = out_of_range_read_reachable[THEN conjunct2, THEN conjunct2, THEN conjunct2]
  have "length ''FF'' = 2 \<and> (\<forall>c\<in>set ''FF''. spec_is_hex c) \<and> 0x80 \<le> spec_value ''FF''"
    by (simp add: spec_defs spec_value_Cons spec_value_Nil)
  then have 1: "hexCodepointToUtf8String ''FF'' = Inl OutOfRange"
    using g[THEN conjunct1] by blast
  have p: "hexCharToValue ''00FF'' = Some 0xFF" by (simp add: eval_defs)
  have t: "utf8CodePointType 0xFF = Latin" by (simp add: utf8CodePointType_def)
  have "\<exists>bs. hexCodepointToUtf8String ''00FF'' = Inr bs"
    using g[THEN conjunct2, rule_format, of "''00FF''" "0xFF"] p t by simp
  then show ?thesis using 1 by simp
qed

end
